theory Spec2Isabelle
  imports Main "HOL-Library.Char_ord" "HOL-Library.List_Lexorder"
begin

section \<open>The sitemap generator \<^verbatim>\<open>sitemap_gen.py\<close>\<close>

text \<open>
  The script reads a domain from the file \<^verbatim>\<open>CNAME\<close>, walks the working directory for
  HTML files, cuts the list of URL paths into chunks of 2000, writes one sitemap fragment
  per chunk under a random name, and writes \<^verbatim>\<open>sitemap.xml\<close> and \<^verbatim>\<open>robots.txt\<close>.

  A Python \<^verbatim>\<open>str\<close> is modelled as a \<^typ>\<open>string\<close>, one \<^typ>\<open>char\<close> per character of
  the \<^verbatim>\<open>str\<close> (code points 0 to 255). Strings are compared as Python compares them:
  lexicographically by code point, a proper prefix being smaller.
\<close>

subsection \<open>String operations of Python used by the script\<close>

definition newline :: char where
  "newline = CHR 0x0A"

text \<open>\<^verbatim>\<open>s.startswith(p)\<close> and \<^verbatim>\<open>s.endswith(p)\<close>.\<close>

definition startswith :: "string \<Rightarrow> string \<Rightarrow> bool" where
  "startswith s p \<longleftrightarrow> take (length p) s = p"

definition endswith :: "string \<Rightarrow> string \<Rightarrow> bool" where
  "endswith s p \<longleftrightarrow> length p \<le> length s \<and> drop (length s - length p) s = p"

text \<open>
  \<^verbatim>\<open>str.isspace\<close> on one character, for the code points below 256: the ASCII white space
  \<^verbatim>\<open>\t \n \v \f \r\<close>, the separators 0x1C to 0x1F, the blank, NEL (0x85) and the no-break
  space (0xA0).
\<close>

definition isspace :: "char \<Rightarrow> bool" where
  "isspace c \<longleftrightarrow>
     (of_char c :: nat) \<in> {0x09, 0x0A, 0x0B, 0x0C, 0x0D, 0x1C, 0x1D, 0x1E, 0x1F, 0x20, 0x85, 0xA0}"

text \<open>\<^verbatim>\<open>s.strip()\<close> removes the white space at both ends.\<close>

definition strip :: "string \<Rightarrow> string" where
  "strip s = rev (dropWhile isspace (rev (dropWhile isspace s)))"

text \<open>\<^verbatim>\<open>s.lstrip(chars)\<close> removes the leading characters that occur in \<^verbatim>\<open>chars\<close>.\<close>

definition lstrip :: "string \<Rightarrow> string \<Rightarrow> string" where
  "lstrip chars s = dropWhile (\<lambda>c. c \<in> set chars) s"

text \<open>
  \<^verbatim>\<open>s.replace(old, new)\<close> scans \<^verbatim>\<open>s\<close> from the left; where \<^verbatim>\<open>old\<close> starts it emits
  \<^verbatim>\<open>new\<close> and skips \<^verbatim>\<open>old\<close>, elsewhere it copies one character. The script calls it
  with \<^verbatim>\<open>old = './'\<close> only; an empty \<^verbatim>\<open>old\<close> is not modelled (the string is returned
  as it is).
\<close>

function str_replace :: "string \<Rightarrow> string \<Rightarrow> string \<Rightarrow> string" where
  "str_replace old new [] = []"
| "str_replace old new (c # cs) =
     (if old \<noteq> [] \<and> startswith (c # cs) old
      then new @ str_replace old new (drop (length old) (c # cs))
      else c # str_replace old new cs)"
  by pat_completeness auto
termination
  by (relation "measure (\<lambda>(old, new, s). length s)") auto

text \<open>\<^verbatim>\<open>os.path.join(a, b)\<close> of \<^verbatim>\<open>posixpath\<close>, for two arguments.\<close>

definition path_join :: "string \<Rightarrow> string \<Rightarrow> string" where
  "path_join a b =
     (if startswith b ''/'' then b
      else if a = [] \<or> endswith a ''/'' then a @ b
      else a @ ''/'' @ b)"

text \<open>\<^verbatim>\<open>str(n)\<close> for a length: the decimal digits of a natural number.\<close>

definition digit_char :: "nat \<Rightarrow> char" where
  "digit_char d = char_of (of_char (CHR ''0'') + d)"

fun str_of_nat :: "nat \<Rightarrow> string" where
  "str_of_nat n =
     (if n < 10 then [digit_char n] else str_of_nat (n div 10) @ [digit_char (n mod 10)])"

declare str_of_nat.simps [simp del]

subsection \<open>The world the script runs in, and what a run leaves behind\<close>

text \<open>
  The exceptions that opening, reading, listing and writing can raise. The script names
  only \<^verbatim>\<open>FileNotFoundError\<close>.
\<close>

datatype error =
    FileNotFoundError
  | PermissionError
  | IsADirectoryError
  | UnicodeDecodeError
  | OSError

text \<open>
  A directory as \<^verbatim>\<open>os.walk\<close> sees it: the names of its files and its sub-directories with
  their contents, both in the order of the listing. (\<^verbatim>\<open>os.walk\<close> is called without
  \<^verbatim>\<open>onerror\<close>, so a directory that cannot be listed shows as an empty one.)
\<close>

datatype dir = Dir (dir_files: "string list") (dir_subdirs: "(string \<times> dir) list")

text \<open>
  The inputs of a run: what \<^verbatim>\<open>open('CNAME').read()\<close> gives, the tree under the working
  directory, what \<^verbatim>\<open>os.listdir('.')\<close> gives, the exception (if any) that opening a file
  for writing raises, the date as \<^verbatim>\<open>strftime('%Y-%m-%d')\<close> prints it, and the random
  source as the sequence of the indices it chooses.
\<close>

record world =
  cname :: "error + string"
  tree :: dir
  listdir :: "error + string list"
  open_w_error :: "string \<Rightarrow> error option"
  today :: string
  random_draws :: "nat \<Rightarrow> nat"

text \<open>
  The effects of a run: the files written, oldest first, the lines printed, and how many
  choices the random source has made.
\<close>

record run_state =
  written :: "(string \<times> string) list"
  stdout :: "string list"
  rng_pos :: nat

definition init_state :: run_state where
  "init_state = \<lparr>written = [], stdout = [], rng_pos = 0\<rparr>"

definition print :: "string \<Rightarrow> run_state \<Rightarrow> run_state" where
  "print line st = st\<lparr>stdout := stdout st @ [line]\<rparr>"

text \<open>\<^verbatim>\<open>with open(filename, 'w') as f: f.write(content)\<close>.\<close>

definition write_file :: "world \<Rightarrow> string \<Rightarrow> string \<Rightarrow> run_state \<Rightarrow> error + run_state" where
  "write_file w filename content st =
     (case open_w_error w filename of
        Some e \<Rightarrow> Inl e
      | None \<Rightarrow> Inr (st\<lparr>written := written st @ [(filename, content)]\<rparr>))"

text \<open>The content of a file after the run: the last write to its name.\<close>

definition file_content :: "run_state \<Rightarrow> string \<Rightarrow> string option" where
  "file_content st name = map_of (rev (written st)) name"

subsection \<open>\<^verbatim>\<open>get_domain_from_cname\<close>\<close>

definition cname_warning :: string where
  "cname_warning = ''Warning: CNAME file not found. Using default.''"

definition get_domain_from_cname :: "world \<Rightarrow> run_state \<Rightarrow> error + (string \<times> run_state)" where
  "get_domain_from_cname w st =
     (case cname w of
        Inr content \<Rightarrow> Inr (strip content, st)
      | Inl FileNotFoundError \<Rightarrow> Inr (''example.com'', print cname_warning st)
      | Inl e \<Rightarrow> Inl e)"

subsection \<open>\<^verbatim>\<open>get_all_html_files\<close>\<close>

text \<open>
  \<^verbatim>\<open>if '.git' in dirs: dirs.remove('.git')\<close> takes the first entry of that name out of the
  list that \<^verbatim>\<open>os.walk\<close> goes on to visit.
\<close>

fun remove_git :: "(string \<times> dir) list \<Rightarrow> (string \<times> dir) list" where
  "remove_git [] = []"
| "remove_git ((name, d) # ds) =
     (if name = ''.git'' then ds else (name, d) # remove_git ds)"

text \<open>The body of the loop over \<^verbatim>\<open>files\<close>, for one file of the directory \<^verbatim>\<open>root\<close>.\<close>

definition url_path :: "string \<Rightarrow> string \<Rightarrow> string" where
  "url_path root file =
     (let full_path = str_replace ''./'' [] (path_join root file)
      in if endswith full_path ''index.html''
         then take (length full_path - 10) full_path
         else full_path)"

definition html_files_in :: "string \<Rightarrow> string list \<Rightarrow> string list" where
  "html_files_in root files =
     map (url_path root) (filter (\<lambda>file. endswith file ''.html'') files)"

text \<open>
  The walk, top down: the files of \<^verbatim>\<open>root\<close> first, then each sub-directory that is left
  after \<^verbatim>\<open>.git\<close> has been removed, under the path \<^verbatim>\<open>os.path.join(root, name)\<close>.
\<close>

function walk_html :: "string \<Rightarrow> dir \<Rightarrow> string list" where
  "walk_html root (Dir files subs) =
     html_files_in root files
     @ concat (map (\<lambda>(name, d). walk_html (path_join root name) d) (remove_git subs))"
  by pat_completeness auto
termination
proof (relation "measure (\<lambda>(root, d). size d)", goal_cases)
  case 1
  show ?case by simp
next
  case (2 root files subs x name d)
  have "set (remove_git ds) \<subseteq> set ds" for ds
    by (induction ds rule: remove_git.induct) auto
  with 2 have "(name, d) \<in> set subs"
    by auto
  then have "size d < Suc (size_list (size_prod (\<lambda>_. 0) size) subs)"
    by (induction subs) auto
  then show ?case by simp
qed

definition get_all_html_files :: "world \<Rightarrow> string list" where
  "get_all_html_files w = walk_html ''.'' (tree w)"

subsection \<open>Regular expressions, for \<^verbatim>\<open>get_existing_sitemaps\<close>\<close>

text \<open>
  The part of the syntax of \<^verbatim>\<open>re\<close> that the script uses: a character class, sequence,
  repetition; \<^verbatim>\<open>Never\<close> and \<^verbatim>\<open>Either\<close> are needed to take derivatives.
\<close>

datatype regex =
    Never
  | Empty
  | OneOf "char list"
  | Then regex regex
  | Either regex regex
  | Many regex

text \<open>A literal string, \<^verbatim>\<open>r+\<close> and \<^verbatim>\<open>r{n}\<close>.\<close>

fun lit :: "string \<Rightarrow> regex" where
  "lit [] = Empty"
| "lit (c # cs) = Then (OneOf [c]) (lit cs)"

definition one_or_more :: "regex \<Rightarrow> regex" where
  "one_or_more r = Then r (Many r)"

fun exactly :: "nat \<Rightarrow> regex \<Rightarrow> regex" where
  "exactly 0 r = Empty"
| "exactly (Suc n) r = Then r (exactly n r)"

text \<open>Matching by derivatives: \<open>after c r\<close> matches what \<open>r\<close> matches after a \<open>c\<close>.\<close>

fun accepts_empty :: "regex \<Rightarrow> bool" where
  "accepts_empty Never = False"
| "accepts_empty Empty = True"
| "accepts_empty (OneOf cs) = False"
| "accepts_empty (Then r s) = (accepts_empty r \<and> accepts_empty s)"
| "accepts_empty (Either r s) = (accepts_empty r \<or> accepts_empty s)"
| "accepts_empty (Many r) = True"

fun after :: "char \<Rightarrow> regex \<Rightarrow> regex" where
  "after c Never = Never"
| "after c Empty = Never"
| "after c (OneOf cs) = (if c \<in> set cs then Empty else Never)"
| "after c (Then r s) =
     (if accepts_empty r then Either (Then (after c r) s) (after c s)
      else Then (after c r) s)"
| "after c (Either r s) = Either (after c r) (after c s)"
| "after c (Many r) = Then (after c r) (Many r)"

definition fullmatch :: "regex \<Rightarrow> string \<Rightarrow> bool" where
  "fullmatch r s = accepts_empty (foldl (\<lambda>r c. after c r) r s)"

text \<open>
  \<^verbatim>\<open>re.compile('^' + body + '$').match(s)\<close>: \<^verbatim>\<open>match\<close> starts at the beginning of \<^verbatim>\<open>s\<close>,
  and \<^verbatim>\<open>$\<close> holds at the end of \<^verbatim>\<open>s\<close> and also just before a newline that ends \<^verbatim>\<open>s\<close>.
\<close>

definition match_anchored :: "regex \<Rightarrow> string \<Rightarrow> bool" where
  "match_anchored body s \<longleftrightarrow>
     fullmatch body s \<or> (s \<noteq> [] \<and> last s = newline \<and> fullmatch body (butlast s))"

definition ascii_lowercase :: string where
  "ascii_lowercase = ''abcdefghijklmnopqrstuvwxyz''"

definition digits :: string where
  "digits = ''0123456789''"

text \<open>\<^verbatim>\<open>^sm_[a-z0-9]+\.xml$\<close> without its anchors.\<close>

definition pattern :: regex where
  "pattern = Then (lit ''sm_'') (Then (one_or_more (OneOf (ascii_lowercase @ digits))) (lit ''.xml''))"

definition get_existing_sitemaps :: "world \<Rightarrow> error + string list" where
  "get_existing_sitemaps w =
     (case listdir w of
        Inl e \<Rightarrow> Inl e
      | Inr names \<Rightarrow> Inr (filter (match_anchored pattern) names))"

subsection \<open>\<^verbatim>\<open>generate_random_name\<close>\<close>

definition letters :: string where
  "letters = ascii_lowercase @ digits"

text \<open>
  \<^verbatim>\<open>random.choice(seq)\<close> is \<^verbatim>\<open>seq[i]\<close> for an index \<^verbatim>\<open>i\<close> below \<^verbatim>\<open>len(seq)\<close> that the
  random source chooses. The source is the sequence of these choices, one for each call;
  a choice is reduced below the length, so that every sequence of numbers is a source and
  every sequence of indices is the choice of some source. The script calls it on
  \<open>letters\<close> only, which is not empty.
\<close>

definition random_choice :: "world \<Rightarrow> 'a list \<Rightarrow> run_state \<Rightarrow> 'a \<times> run_state" where
  "random_choice w seq st =
     (seq ! (random_draws w (rng_pos st) mod length seq), st\<lparr>rng_pos := Suc (rng_pos st)\<rparr>)"

text \<open>\<^verbatim>\<open>''.join(random.choice(letters) for i in range(length))\<close>.\<close>

fun random_token :: "world \<Rightarrow> nat \<Rightarrow> run_state \<Rightarrow> string \<times> run_state" where
  "random_token w 0 st = ([], st)"
| "random_token w (Suc n) st =
     (let (c, st') = random_choice w letters st;
          (cs, st'') = random_token w n st'
      in (c # cs, st''))"

definition generate_random_name :: "world \<Rightarrow> nat \<Rightarrow> run_state \<Rightarrow> string \<times> run_state" where
  "generate_random_name w len st =
     (let (token, st') = random_token w len st in (''sm_'' @ token @ ''.xml'', st'))"

definition default_length :: nat where
  "default_length = 12"

subsection \<open>\<^verbatim>\<open>create_sitemap_chunk\<close>\<close>

definition xml_header :: string where
  \<open>xml_header = ''<?xml version="1.0" encoding="UTF-8"?>\<newline>''\<close>

definition full_url :: "string \<Rightarrow> string \<Rightarrow> string" where
  "full_url domain url =
     (let clean_url = lstrip ''/'' url in ''https://'' @ domain @ ''/'' @ clean_url)"

definition url_entry :: "string \<Rightarrow> string \<Rightarrow> string \<Rightarrow> string" where
  "url_entry domain date url =
     ''  <url>\<newline>    <loc>'' @ full_url domain url @ ''</loc>\<newline>    <lastmod>'' @ date
     @ ''</lastmod>\<newline>    <priority>0.8</priority>\<newline>  </url>\<newline>''"

definition sitemap_chunk_content :: "string list \<Rightarrow> string \<Rightarrow> string \<Rightarrow> string" where
  \<open>sitemap_chunk_content urls domain date =
     foldl (\<lambda>content url. content @ url_entry domain date url)
       (xml_header @ ''<urlset xmlns="http://www.sitemaps.org/schemas/sitemap/0.9">\<newline>'')
       urls
     @ ''</urlset>''\<close>

definition create_sitemap_chunk ::
  "world \<Rightarrow> string list \<Rightarrow> string \<Rightarrow> string \<Rightarrow> run_state \<Rightarrow> error + run_state" where
  "create_sitemap_chunk w urls domain filename st =
     write_file w filename (sitemap_chunk_content urls domain (today w)) st"

subsection \<open>\<^verbatim>\<open>create_main_index\<close> and \<^verbatim>\<open>create_robots_txt\<close>\<close>

text \<open>
  \<^verbatim>\<open>sorted(list(set(sitemap_files)))\<close>: the order in which a Python set gives its
  elements is not fixed, but sorting makes the result independent of it.
\<close>

definition sorted_set :: "string list \<Rightarrow> string list" where
  "sorted_set sitemap_files = sort (remdups sitemap_files)"

definition index_entry :: "string \<Rightarrow> string \<Rightarrow> string" where
  "index_entry domain sm =
     ''  <sitemap>\<newline>    <loc>https://'' @ domain @ ''/'' @ sm @ ''</loc>\<newline>  </sitemap>\<newline>''"

definition main_index_content :: "string list \<Rightarrow> string \<Rightarrow> string" where
  \<open>main_index_content sitemap_files domain =
     foldl (\<lambda>content sm. content @ index_entry domain sm)
       (xml_header @ ''<sitemapindex xmlns="http://www.sitemaps.org/schemas/sitemap/0.9">\<newline>'')
       (sorted_set sitemap_files)
     @ ''</sitemapindex>''\<close>

definition create_main_index :: "world \<Rightarrow> string list \<Rightarrow> string \<Rightarrow> run_state \<Rightarrow> error + run_state" where
  "create_main_index w sitemap_files domain st =
     write_file w ''sitemap.xml'' (main_index_content sitemap_files domain) st"

definition robots_txt_content :: "string \<Rightarrow> string" where
  "robots_txt_content domain =
     ''User-agent: *\<newline>Allow: /\<newline>'' @ ''\<newline>Sitemap: https://'' @ domain @ ''/sitemap.xml''"

definition create_robots_txt :: "world \<Rightarrow> string \<Rightarrow> run_state \<Rightarrow> error + run_state" where
  "create_robots_txt w domain st = write_file w ''robots.txt'' (robots_txt_content domain) st"

subsection \<open>\<^verbatim>\<open>main\<close>\<close>

definition MAX_URLS :: nat where
  "MAX_URLS = 2000"

text \<open>
  \<^verbatim>\<open>range(start, stop, step)\<close> for a positive step, and the slice \<^verbatim>\<open>xs[i:j]\<close> for
  \<^verbatim>\<open>0 <= i <= j\<close> (a slice stops at the end of the list).
\<close>

definition range_step :: "nat \<Rightarrow> nat \<Rightarrow> nat \<Rightarrow> nat list" where
  "range_step start stop step =
     map (\<lambda>k. start + k * step) [0 ..< (stop - start + step - 1) div step]"

definition slice :: "'a list \<Rightarrow> nat \<Rightarrow> nat \<Rightarrow> 'a list" where
  "slice xs i j = take (j - i) (drop i xs)"

text \<open>\<^verbatim>\<open>[all_urls[i:i + n] for i in range(0, len(all_urls), n)]\<close>.\<close>

definition chunks_of :: "nat \<Rightarrow> 'a list \<Rightarrow> 'a list list" where
  "chunks_of n all_urls =
     map (\<lambda>i. slice all_urls i (i + n)) (range_step 0 (length all_urls) n)"

text \<open>
  The loop over the chunks: a new name, the fragment written under it, the name kept, a
  line printed. An exception of the write ends the run.
\<close>

fun write_chunks ::
  "world \<Rightarrow> string \<Rightarrow> string list list \<Rightarrow> string list \<Rightarrow> run_state
    \<Rightarrow> error + (string list \<times> run_state)" where
  "write_chunks w domain [] new_sitemap_filenames st = Inr (new_sitemap_filenames, st)"
| "write_chunks w domain (chunk # chunks) new_sitemap_filenames st =
     (let (new_name, st1) = generate_random_name w default_length st
      in case create_sitemap_chunk w chunk domain new_name st1 of
           Inl e \<Rightarrow> Inl e
         | Inr st2 \<Rightarrow>
             write_chunks w domain chunks (new_sitemap_filenames @ [new_name])
               (print (''Generated new chunk: '' @ new_name) st2))"

definition main :: "world \<Rightarrow> error + run_state" where
  "main w =
     (case get_domain_from_cname w init_state of
        Inl e \<Rightarrow> Inl e
      | Inr (domain, st1) \<Rightarrow>
          let all_urls = get_all_html_files w
          in case get_existing_sitemaps w of
               Inl e \<Rightarrow> Inl e
             | Inr existing_sitemaps \<Rightarrow>
                 let chunks = chunks_of MAX_URLS all_urls
                 in case write_chunks w domain chunks [] st1 of
                      Inl e \<Rightarrow> Inl e
                    | Inr (new_sitemap_filenames, st2) \<Rightarrow>
                        let total_sitemaps = existing_sitemaps @ new_sitemap_filenames
                        in case create_main_index w total_sitemaps domain st2 of
                             Inl e \<Rightarrow> Inl e
                           | Inr st3 \<Rightarrow>
                               create_robots_txt w domain
                                 (print (''Updated sitemap.xml with ''
                                           @ str_of_nat (length total_sitemaps)
                                           @ '' total sitemap files.'') st3))"

subsection \<open>What the patterns mean\<close>

text \<open>
  The language of a regular expression, to state what \<open>fullmatch\<close> decides, and the
  pattern \<^verbatim>\<open>sm_[a-z0-9]{12}\.xml\<close> that the specification gives for the names of new
  fragments.
\<close>

inductive_set star :: "string set \<Rightarrow> string set" for A :: "string set" where
  star_empty: "[] \<in> star A"
| star_step: "u \<in> A \<Longrightarrow> v \<in> star A \<Longrightarrow> u @ v \<in> star A"

fun lang :: "regex \<Rightarrow> string set" where
  "lang Never = {}"
| "lang Empty = {[]}"
| "lang (OneOf cs) = {[c] | c. c \<in> set cs}"
| "lang (Then r s) = {u @ v | u v. u \<in> lang r \<and> v \<in> lang s}"
| "lang (Either r s) = lang r \<union> lang s"
| "lang (Many r) = star (lang r)"

definition spec_name_pattern :: regex where
  "spec_name_pattern =
     Then (lit ''sm_'') (Then (exactly 12 (OneOf (ascii_lowercase @ digits))) (lit ''.xml''))"

subsection \<open>Notions of the specification\<close>

text \<open>
  The first line of a text, and the lines of a text (a newline at the very end closes the
  last line and opens no new one). The script has neither; the specification speaks of
  both.
\<close>

definition first_line :: "string \<Rightarrow> string" where
  "first_line content = takeWhile (\<lambda>c. c \<noteq> newline) content"

fun lines_of :: "string \<Rightarrow> string list" where
  "lines_of [] = []"
| "lines_of (c # cs) =
     (if c = newline then [] # lines_of cs
      else case lines_of cs of [] \<Rightarrow> [[c]] | l # ls \<Rightarrow> (c # l) # ls)"

text \<open>
  A small site to run the script on: two pages, a style sheet and a \<^verbatim>\<open>.git\<close> directory,
  one fragment left by an earlier run.
\<close>

definition example_world :: world where
  "example_world =
     \<lparr>cname = Inr ''example.org\<newline>'',
      tree = Dir [''b.html'', ''style.css'']
               [(''a'', Dir [''index.html''] []), (''.git'', Dir [''x.html''] [])],
      listdir = Inr [''sm_prev0run1.xml'', ''sitemap.xml'', ''a'', ''b.html'', ''CNAME''],
      open_w_error = (\<lambda>_. None),
      today = ''2024-01-01'',
      random_draws = (\<lambda>i. 7 * i + 3)\<rparr>"

text \<open>
  A path as its components, joined by the separator, and the same path where every
  component but the last that ends in a dot has lost that dot and the separator after it.
\<close>

fun join_components :: "string list \<Rightarrow> string" where
  "join_components [] = []"
| "join_components [c] = c"
| "join_components (c # cs) = c @ ''/'' @ join_components cs"

fun without_dot_slash :: "string list \<Rightarrow> string" where
  "without_dot_slash [] = []"
| "without_dot_slash [c] = c"
| "without_dot_slash (c # cs) =
     (if c \<noteq> [] \<and> last c = CHR ''.'' then butlast c else c @ ''/'') @ without_dot_slash cs"

text \<open>
  The fragments a run has created: the files it has written, the index and
  \<^verbatim>\<open>robots.txt\<close> apart.
\<close>

definition created_fragments :: "run_state \<Rightarrow> string list" where
  "created_fragments st =
     filter (\<lambda>f. f \<noteq> ''sitemap.xml'' \<and> f \<noteq> ''robots.txt'') (map fst (written st))"

text \<open>
  The name that a run gives to its fragment number \<open>k\<close>, counted from 0: the run starts
  at the first choice of the random source, and each name takes \<open>default_length\<close> choices.
\<close>

definition fragment_name :: "world \<Rightarrow> nat \<Rightarrow> string" where
  "fragment_name w k =
     fst (generate_random_name w default_length (init_state\<lparr>rng_pos := k * default_length\<rparr>))"

section \<open>Properties\<close>

subsection \<open>The chunk partition\<close>

lemma chunks_of_eq:
  "chunks_of n xs = map (\<lambda>k. take n (drop (k * n) xs)) [0 ..< (length xs + n - 1) div n]"
  by (simp add: chunks_of_def range_step_def slice_def comp_def)

lemma concat_chunks_upto:
  "concat (map (\<lambda>k. take n (drop (k * n) xs)) [0 ..< m]) = take (m * n) xs"
proof (induction m)
  case 0
  show ?case by simp
next
  case (Suc m)
  have "Suc m * n = m * n + n"
    by simp
  then have "take (Suc m * n) xs = take (m * n) xs @ take n (drop (m * n) xs)"
    by (simp only: take_add)
  with Suc show ?case by simp
qed

lemma chunk_count_covers:
  assumes "0 < n"
  shows "(L::nat) \<le> ((L + n - 1) div n) * n"
proof -
  have "(L + n - 1) mod n < n"
    using assms by simp
  moreover have "L + n - 1 = ((L + n - 1) div n) * n + (L + n - 1) mod n"
    by simp
  ultimately show ?thesis
    using assms by linarith
qed

lemma concat_chunks_of:
  assumes "0 < n"
  shows "concat (chunks_of n xs) = xs"
  using chunk_count_covers [OF assms, of "length xs"]
  by (simp add: chunks_of_eq concat_chunks_upto)

lemma chunk_length_le:
  "c \<in> set (chunks_of n xs) \<Longrightarrow> length c \<le> n"
  by (auto simp: chunks_of_eq)

lemma full_chunk_before_last:
  assumes "0 < n" and "Suc k < (L + n - 1) div n"
  shows "Suc k * n \<le> (L::nat)"
proof -
  have "Suc (Suc k) \<le> (L + n - 1) div n"
    using assms(2) by simp
  then have "Suc (Suc k) * n \<le> ((L + n - 1) div n) * n"
    by (rule mult_le_mono1)
  also have "\<dots> \<le> L + n - 1"
    by simp
  finally show ?thesis
    using assms(1) by simp
qed

lemma butlast_chunks_length:
  assumes "0 < n" and "c \<in> set (butlast (chunks_of n xs))"
  shows "length c = n"
proof -
  let ?m = "(length xs + n - 1) div n"
  have "butlast (chunks_of n xs) = map (\<lambda>k. take n (drop (k * n) xs)) [0 ..< ?m - 1]"
    by (cases ?m) (simp_all add: chunks_of_eq map_butlast [symmetric])
  with assms(2) obtain k where k: "k < ?m - 1" and c: "c = take n (drop (k * n) xs)"
    by auto
  from k have "Suc k < ?m" by simp
  from full_chunk_before_last [OF assms(1) this] have "Suc k * n \<le> length xs" .
  then show ?thesis
    by (simp add: c)
qed

text \<open>
  C2. For every URL list, with the chunk size 2000 of the script: the chunks put one after
  the other give the list back, every chunk but the last has exactly 2000 entries, and no
  chunk has more than 2000.
\<close>

theorem chunks_partition:
  "concat (chunks_of MAX_URLS all_urls) = all_urls
   \<and> (\<forall>c \<in> set (butlast (chunks_of MAX_URLS all_urls)). length c = MAX_URLS)
   \<and> (\<forall>c \<in> set (chunks_of MAX_URLS all_urls). length c \<le> MAX_URLS)"
proof -
  have pos: "0 < MAX_URLS"
    by (simp add: MAX_URLS_def)
  show ?thesis
    using concat_chunks_of [OF pos] butlast_chunks_length [OF pos] chunk_length_le
    by blast
qed

theorem chunks_partition_witness:
  "replicate 2000 ''a.html'' \<in> set (butlast (chunks_of MAX_URLS (replicate 2001 ''a.html'')))
   \<and> length (replicate 2000 ''a.html'') = MAX_URLS
   \<and> [''a.html''] \<in> set (chunks_of MAX_URLS (replicate 2001 ''a.html''))
   \<and> length [''a.html''] \<le> MAX_URLS
   \<and> concat (chunks_of MAX_URLS (replicate 2001 ''a.html'')) = replicate 2001 ''a.html''"
proof -
  have "chunks_of MAX_URLS (replicate 2001 ''a.html'') = [replicate 2000 ''a.html'', [''a.html'']]"
    by (simp add: chunks_of_eq MAX_URLS_def upt_rec [of 0] upt_rec [of "Suc 0"])
  then have "replicate 2000 ''a.html'' \<in> set (butlast (chunks_of MAX_URLS (replicate 2001 ''a.html'')))"
    and "[''a.html''] \<in> set (chunks_of MAX_URLS (replicate 2001 ''a.html''))"
    by simp_all
  with chunks_partition [of "replicate 2001 ''a.html''"] show ?thesis
    by blast
qed

subsection \<open>The matcher decides the language\<close>

lemma accepts_empty_lang: "accepts_empty r \<longleftrightarrow> [] \<in> lang r"
  by (induction r) (auto intro: star_empty)

lemma star_cons_split:
  assumes "x \<in> star A" and "x = c # s"
  shows "\<exists>u v. c # u \<in> A \<and> v \<in> star A \<and> s = u @ v"
  using assms
proof (induction arbitrary: s rule: star.induct)
  case star_empty
  then show ?case by simp
next
  case (star_step u v)
  show ?case
  proof (cases u)
    case Nil
    with star_step show ?thesis by simp
  next
    case (Cons a u')
    with star_step.prems have "a = c" and "s = u' @ v"
      by simp_all
    with Cons star_step.hyps show ?thesis
      by blast
  qed
qed

lemma star_cons_iff:
  "c # s \<in> star A \<longleftrightarrow> (\<exists>u v. c # u \<in> A \<and> v \<in> star A \<and> s = u @ v)"
proof
  assume "c # s \<in> star A"
  then show "\<exists>u v. c # u \<in> A \<and> v \<in> star A \<and> s = u @ v"
    by (rule star_cons_split) simp
next
  assume "\<exists>u v. c # u \<in> A \<and> v \<in> star A \<and> s = u @ v"
  then obtain u v where "c # u \<in> A" "v \<in> star A" "s = u @ v"
    by blast
  then show "c # s \<in> star A"
    using star_step [of "c # u" A v] by simp
qed

lemma lang_after: "s \<in> lang (after c r) \<longleftrightarrow> c # s \<in> lang r"
proof (induction r arbitrary: s)
  case (Then r1 r2)
  have "c # s \<in> lang (Then r1 r2) \<longleftrightarrow>
      ([] \<in> lang r1 \<and> c # s \<in> lang r2) \<or> (\<exists>u v. c # u \<in> lang r1 \<and> v \<in> lang r2 \<and> s = u @ v)"
    by (auto simp: Cons_eq_append_conv)
  with Then show ?case
    by (auto simp: accepts_empty_lang)
next
  case (Many r)
  then show ?case
    by (auto simp: star_cons_iff)
qed auto

lemma fullmatch_lang: "fullmatch r s \<longleftrightarrow> s \<in> lang r"
proof -
  have "accepts_empty (foldl (\<lambda>r c. after c r) r s) \<longleftrightarrow> s \<in> lang r"
    by (induction s arbitrary: r) (simp_all add: accepts_empty_lang lang_after)
  then show ?thesis
    by (simp add: fullmatch_def)
qed

lemma lang_lit: "lang (lit s) = {s}"
  by (induction s) auto

lemma lang_OneOf_Then:
  "t \<in> lang (Then (OneOf cs) r) \<longleftrightarrow> (\<exists>c v. t = c # v \<and> c \<in> set cs \<and> v \<in> lang r)"
proof
  assume "t \<in> lang (Then (OneOf cs) r)"
  then obtain c v where "t = [c] @ v" "c \<in> set cs" "v \<in> lang r"
    by auto
  then show "\<exists>c v. t = c # v \<and> c \<in> set cs \<and> v \<in> lang r"
    by simp
next
  assume "\<exists>c v. t = c # v \<and> c \<in> set cs \<and> v \<in> lang r"
  then obtain c v where "t = [c] @ v" "c \<in> set cs" "v \<in> lang r"
    by auto
  then have "\<exists>u v'. t = u @ v' \<and> u \<in> lang (OneOf cs) \<and> v' \<in> lang r"
    by (intro exI [of _ "[c]"] exI [of _ v]) simp
  then show "t \<in> lang (Then (OneOf cs) r)"
    by auto
qed

lemma lang_exactly_OneOf:
  "t \<in> lang (exactly n (OneOf cs)) \<longleftrightarrow> length t = n \<and> set t \<subseteq> set cs"
proof (induction n arbitrary: t)
  case 0
  show ?case by auto
next
  case (Suc n)
  have "t \<in> lang (exactly (Suc n) (OneOf cs))
      \<longleftrightarrow> (\<exists>c v. t = c # v \<and> c \<in> set cs \<and> v \<in> lang (exactly n (OneOf cs)))"
    unfolding exactly.simps by (rule lang_OneOf_Then)
  also have "\<dots> \<longleftrightarrow> length t = Suc n \<and> set t \<subseteq> set cs"
    using Suc by (cases t) auto
  finally show ?case .
qed

lemma star_OneOf: "t \<in> star (lang (OneOf cs)) \<longleftrightarrow> set t \<subseteq> set cs"
proof (induction t)
  case Nil
  show ?case by (simp add: star_empty)
next
  case (Cons c t)
  have "c # t \<in> star (lang (OneOf cs)) \<longleftrightarrow> c \<in> set cs \<and> t \<in> star (lang (OneOf cs))"
    by (auto simp: star_cons_iff)
  with Cons show ?case by simp
qed

lemma lang_one_or_more_OneOf:
  "t \<in> lang (one_or_more (OneOf cs)) \<longleftrightarrow> t \<noteq> [] \<and> set t \<subseteq> set cs"
proof -
  have "t \<in> lang (one_or_more (OneOf cs))
      \<longleftrightarrow> (\<exists>c v. t = c # v \<and> c \<in> set cs \<and> v \<in> lang (Many (OneOf cs)))"
    unfolding one_or_more_def by (rule lang_OneOf_Then)
  also have "\<dots> \<longleftrightarrow> t \<noteq> [] \<and> set t \<subseteq> set cs"
    unfolding lang.simps(6) star_OneOf by (cases t) auto
  finally show ?thesis .
qed

lemma lang_lit_Then: "t \<in> lang (Then (lit s) r) \<longleftrightarrow> (\<exists>v. t = s @ v \<and> v \<in> lang r)"
  by (auto simp: lang_lit)

lemma lang_Then_lit: "t \<in> lang (Then r (lit s)) \<longleftrightarrow> (\<exists>u. t = u @ s \<and> u \<in> lang r)"
  by (auto simp: lang_lit)

lemma fullmatch_pattern:
  "fullmatch pattern f \<longleftrightarrow>
     (\<exists>token. token \<noteq> [] \<and> set token \<subseteq> set letters \<and> f = ''sm_'' @ token @ ''.xml'')"
  unfolding fullmatch_lang pattern_def lang_lit_Then lang_Then_lit lang_one_or_more_OneOf letters_def
  by blast


subsection \<open>Names of new fragments\<close>

lemma random_choice_in:
  assumes "seq \<noteq> []"
  shows "fst (random_choice w seq st) \<in> set seq"
  using assms by (simp add: random_choice_def)

lemma letters_nonempty: "letters \<noteq> []"
  by (simp add: letters_def ascii_lowercase_def)

lemma random_token_shape:
  "length (fst (random_token w n st)) = n \<and> set (fst (random_token w n st)) \<subseteq> set letters"
proof (induction n arbitrary: st)
  case 0
  show ?case by simp
next
  case (Suc n)
  obtain c st' where c: "random_choice w letters st = (c, st')"
    by (cases "random_choice w letters st")
  obtain cs st'' where cs: "random_token w n st' = (cs, st'')"
    by (cases "random_token w n st'")
  from c have "c \<in> set letters"
    using random_choice_in [OF letters_nonempty, of w st] by simp
  moreover from cs Suc [of st'] have "length cs = n" and "set cs \<subseteq> set letters"
    by simp_all
  ultimately show ?case
    by (simp add: c cs)
qed

lemma generate_random_name_eq:
  "fst (generate_random_name w len st) = ''sm_'' @ fst (random_token w len st) @ ''.xml''"
  by (simp add: generate_random_name_def split: prod.split)

text \<open>
  C7. Whatever the random source draws, a name generated with the default token length
  matches \<^verbatim>\<open>sm_[a-z0-9]{12}\.xml\<close>: it is \<^verbatim>\<open>sm_\<close>, then exactly 12 characters that are
  lowercase letters or digits, then \<^verbatim>\<open>.xml\<close>.
\<close>

theorem generated_name_matches:
  "fullmatch spec_name_pattern (fst (generate_random_name w default_length st))
   \<and> (\<exists>token. fst (generate_random_name w default_length st) = ''sm_'' @ token @ ''.xml''
        \<and> length token = 12
        \<and> set token \<subseteq> set ascii_lowercase \<union> set digits)"
proof -
  let ?token = "fst (random_token w default_length st)"
  have shape: "length ?token = 12" "set ?token \<subseteq> set (ascii_lowercase @ digits)"
    using random_token_shape [of w default_length st]
    by (simp_all add: default_length_def letters_def)
  have name: "fst (generate_random_name w default_length st) = ''sm_'' @ ?token @ ''.xml''"
    by (rule generate_random_name_eq)
  have "fullmatch spec_name_pattern (''sm_'' @ ?token @ ''.xml'')"
    unfolding fullmatch_lang spec_name_pattern_def lang_lit_Then lang_Then_lit lang_exactly_OneOf
    using shape by blast
  with name shape show ?thesis
    by auto
qed

subsection \<open>URLs in a fragment\<close>

lemma lstrip_split:
  "\<exists>k. s = replicate k c @ lstrip [c] s \<and> \<not> startswith (lstrip [c] s) [c]"
proof (induction s)
  case Nil
  show ?case by (simp add: lstrip_def startswith_def)
next
  case (Cons a s)
  show ?case
  proof (cases "a = c")
    case True
    from Cons obtain k where "s = replicate k c @ lstrip [c] s" "\<not> startswith (lstrip [c] s) [c]"
      by blast
    with True have "a # s = replicate (Suc k) c @ lstrip [c] (a # s) \<and> \<not> startswith (lstrip [c] (a # s)) [c]"
      by (simp add: lstrip_def)
    then show ?thesis by blast
  next
    case False
    then have "a # s = replicate 0 c @ lstrip [c] (a # s) \<and> \<not> startswith (lstrip [c] (a # s)) [c]"
      by (simp add: lstrip_def startswith_def)
    then show ?thesis by blast
  qed
qed

lemma foldl_append_concat:
  "foldl (\<lambda>content x. content @ f x) init xs = init @ concat (map f xs)"
  by (induction xs arbitrary: init) simp_all

lemma sitemap_chunk_content_eq:
  \<open>sitemap_chunk_content urls domain date =
     xml_header @ ''<urlset xmlns="http://www.sitemaps.org/schemas/sitemap/0.9">\<newline>''
     @ concat (map (url_entry domain date) urls) @ ''</urlset>''\<close>
  by (simp add: sitemap_chunk_content_def foldl_append_concat)

text \<open>
  C4. For every domain and every source path, the URL rendered into a fragment is
  \<^verbatim>\<open>https://\<close>, the domain, one slash, and the path without its leading slashes: the path
  is some number of slashes followed by a rest that does not start with a slash, and only
  the rest is put after the slash. The entry of the fragment carries this URL.
\<close>

theorem fragment_url_single_slash:
  \<open>\<exists>k path. url = replicate k (CHR ''/'') @ path \<and> \<not> startswith path ''/''
     \<and> full_url domain url = ''https://'' @ domain @ ''/'' @ path
     \<and> url_entry domain date url =
         ''  <url>\<newline>    <loc>https://'' @ domain @ ''/'' @ path @ ''</loc>\<newline>    <lastmod>'' @ date
         @ ''</lastmod>\<newline>    <priority>0.8</priority>\<newline>  </url>\<newline>''
     \<and> sitemap_chunk_content (before @ url # rest) domain date =
         xml_header @ ''<urlset xmlns="http://www.sitemaps.org/schemas/sitemap/0.9">\<newline>''
         @ concat (map (url_entry domain date) before) @ url_entry domain date url
         @ concat (map (url_entry domain date) rest) @ ''</urlset>''\<close>
proof -
  obtain k where "url = replicate k (CHR ''/'') @ lstrip ''/'' url"
    and "\<not> startswith (lstrip ''/'' url) ''/''"
    using lstrip_split [of url "CHR ''/''"] by blast
  then show ?thesis
    by (intro exI [of _ k] exI [of _ "lstrip ''/'' url"])
      (simp add: full_url_def url_entry_def sitemap_chunk_content_eq)
qed

subsection \<open>The content of robots.txt\<close>

lemma lines_of_single:
  "newline \<notin> set s \<Longrightarrow> s \<noteq> [] \<Longrightarrow> lines_of s = [s]"
proof (induction s)
  case Nil
  then show ?case by simp
next
  case (Cons c s)
  then show ?case by (cases s) auto
qed

lemma lines_of_line:
  "newline \<notin> set l \<Longrightarrow> lines_of (l @ newline # rest) = l # lines_of rest"
  by (induction l) auto

lemma robots_lines:
  "lines_of (robots_txt_content domain) =
     [''User-agent: *'', ''Allow: /'', ''''] @ lines_of (''Sitemap: https://'' @ domain @ ''/sitemap.xml'')"
proof -
  have first: "lines_of (''User-agent: *'' @ newline # r) = ''User-agent: *'' # lines_of r" for r
    by (rule lines_of_line) (simp add: newline_def)
  have second: "lines_of (''Allow: /'' @ newline # r) = ''Allow: /'' # lines_of r" for r
    by (rule lines_of_line) (simp add: newline_def)
  have third: "lines_of ([] @ newline # r) = [] # lines_of r" for r
    by (rule lines_of_line) simp
  have content: "robots_txt_content domain =
      ''User-agent: *'' @ newline # (''Allow: /'' @ newline # ([] @ newline
        # (''Sitemap: https://'' @ domain @ ''/sitemap.xml'')))"
    by (simp add: robots_txt_content_def newline_def)
  show ?thesis
    unfolding content first second third by simp
qed

lemma robots_no_final_newline: "last (robots_txt_content domain) \<noteq> newline"
  by (simp add: robots_txt_content_def newline_def)

text \<open>
  C8, as amended. For every domain, the content of \<^verbatim>\<open>robots.txt\<close> is the three lines
  \<^verbatim>\<open>User-agent: *\<close>, \<^verbatim>\<open>Allow: /\<close> and an empty line, followed by the text
  \<^verbatim>\<open>Sitemap: https://{domain}/sitemap.xml\<close> with no newline after it; for a domain
  without a line break these are exactly four lines. This content is what
  \<^verbatim>\<open>create_robots_txt\<close> leaves in the file.
\<close>

theorem robots_txt_lines:
  "robots_txt_content domain =
     ''User-agent: *'' @ [newline] @ ''Allow: /'' @ [newline] @ [newline]
     @ ''Sitemap: https://'' @ domain @ ''/sitemap.xml''
   \<and> last (robots_txt_content domain) \<noteq> newline
   \<and> lines_of (robots_txt_content domain) =
     [''User-agent: *'', ''Allow: /'', ''''] @ lines_of (''Sitemap: https://'' @ domain @ ''/sitemap.xml'')
   \<and> (newline \<notin> set domain \<longrightarrow>
        lines_of (robots_txt_content domain) =
          [''User-agent: *'', ''Allow: /'', '''', ''Sitemap: https://'' @ domain @ ''/sitemap.xml''])
   \<and> (open_w_error w ''robots.txt'' = None \<longrightarrow>
        (\<exists>st'. create_robots_txt w domain st = Inr st'
           \<and> file_content st' ''robots.txt'' = Some (robots_txt_content domain)))"
proof -
  have "lines_of (''Sitemap: https://'' @ domain @ ''/sitemap.xml'')
      = [''Sitemap: https://'' @ domain @ ''/sitemap.xml'']" if "newline \<notin> set domain"
    using that by (intro lines_of_single) (simp_all add: newline_def)
  moreover have "robots_txt_content domain =
     ''User-agent: *'' @ [newline] @ ''Allow: /'' @ [newline] @ [newline]
     @ ''Sitemap: https://'' @ domain @ ''/sitemap.xml''"
    by (simp add: robots_txt_content_def newline_def)
  moreover have "\<exists>st'. create_robots_txt w domain st = Inr st'
      \<and> file_content st' ''robots.txt'' = Some (robots_txt_content domain)"
    if "open_w_error w ''robots.txt'' = None"
    using that by (simp add: create_robots_txt_def write_file_def file_content_def)
  ultimately show ?thesis
    using robots_lines [of domain] robots_no_final_newline [of domain] by simp
qed

theorem robots_txt_lines_witness:
  "newline \<notin> set ''example.com''
   \<and> robots_txt_content ''example.com'' =
       ''User-agent: *'' @ [newline] @ ''Allow: /'' @ [newline] @ [newline]
       @ ''Sitemap: https://example.com/sitemap.xml''
   \<and> last (robots_txt_content ''example.com'') \<noteq> newline
   \<and> lines_of (robots_txt_content ''example.com'') =
       [''User-agent: *'', ''Allow: /'', '''', ''Sitemap: https://example.com/sitemap.xml'']
   \<and> (\<exists>st'. create_robots_txt example_world ''example.com'' init_state = Inr st'
         \<and> file_content st' ''robots.txt'' = Some (robots_txt_content ''example.com''))"
proof -
  note r = robots_txt_lines [of "''example.com''" example_world init_state]
  have ok: "open_w_error example_world ''robots.txt'' = None"
    by (simp add: example_world_def)
  have nl: "newline \<notin> set ''example.com''"
    by (simp add: newline_def)
  from r have content: "robots_txt_content ''example.com'' =
       ''User-agent: *'' @ [newline] @ ''Allow: /'' @ [newline] @ [newline]
       @ ''Sitemap: https://example.com/sitemap.xml''"
    by simp
  from r have final: "last (robots_txt_content ''example.com'') \<noteq> newline"
    by (elim conjE)
  from r have "newline \<notin> set ''example.com'' \<longrightarrow>
      lines_of (robots_txt_content ''example.com'') =
        [''User-agent: *'', ''Allow: /'', '''', ''Sitemap: https://'' @ ''example.com'' @ ''/sitemap.xml'']"
    by (elim conjE)
  from this [rule_format, OF nl] have four: "lines_of (robots_txt_content ''example.com'') =
       [''User-agent: *'', ''Allow: /'', '''', ''Sitemap: https://example.com/sitemap.xml'']"
    by simp
  from r have "open_w_error example_world ''robots.txt'' = None \<longrightarrow>
      (\<exists>st'. create_robots_txt example_world ''example.com'' init_state = Inr st'
         \<and> file_content st' ''robots.txt'' = Some (robots_txt_content ''example.com''))"
    by (elim conjE)
  from this [rule_format, OF ok]
  have wr: "\<exists>st'. create_robots_txt example_world ''example.com'' init_state = Inr st'
         \<and> file_content st' ''robots.txt'' = Some (robots_txt_content ''example.com'')" .
  from nl content final four wr show ?thesis
    by (intro conjI)
qed

text \<open>The claim as stated, two lines, fails for the domain \<^verbatim>\<open>example.com\<close>.\<close>

theorem robots_txt_two_lines_counterexample:
  "length (lines_of (robots_txt_content ''example.com'')) \<noteq> 2"
  by (simp add: robots_txt_content_def newline_def)

subsection \<open>The domain read from the marker file\<close>

lemma strip_append_spaces:
  assumes "\<forall>c \<in> set ws. isspace c"
  shows "strip (l @ ws) = strip l"
proof (cases "\<forall>c \<in> set l. isspace c")
  case True
  with assms have both: "dropWhile isspace (l @ ws) = []" and left: "dropWhile isspace l = []"
    by (simp_all add: dropWhile_eq_Nil_conv ball_Un)
  show ?thesis
    unfolding strip_def both left ..
next
  case False
  then have "dropWhile isspace (l @ ws) = dropWhile isspace l @ ws"
    by (auto simp: dropWhile_append1)
  moreover have "dropWhile isspace (rev ws @ r) = dropWhile isspace r" for r
    using assms by (induction ws arbitrary: r) simp_all
  ultimately show ?thesis
    by (simp add: strip_def)
qed

lemma isspace_newline: "isspace newline"
  by (simp add: isspace_def newline_def)

lemma strip_first_line:
  assumes "\<forall>c \<in> set (dropWhile (\<lambda>c. c \<noteq> newline) content). isspace c"
  shows "strip content = strip (first_line content)"
proof -
  have "content = first_line content @ dropWhile (\<lambda>c. c \<noteq> newline) content"
    by (simp add: first_line_def)
  then have "strip content = strip (first_line content @ dropWhile (\<lambda>c. c \<noteq> newline) content)"
    by simp
  also have "\<dots> = strip (first_line content)"
    using assms by (rule strip_append_spaces)
  finally show ?thesis .
qed

text \<open>
  C6, as amended. When the marker file can be read, the domain is the whole content of the
  file without the white space at its two ends; it is the first line without the white
  space at its ends whenever nothing but white space follows the first line.
\<close>

theorem domain_is_stripped_content:
  assumes "cname w = Inr content"
  shows "get_domain_from_cname w st = Inr (strip content, st)
     \<and> ((\<forall>c \<in> set (dropWhile (\<lambda>c. c \<noteq> newline) content). isspace c)
          \<longrightarrow> get_domain_from_cname w st = Inr (strip (first_line content), st))"
  using assms strip_first_line [of content]
  by (simp add: get_domain_from_cname_def)

lemma example_cname: "cname example_world = Inr ''example.org\<newline>''"
  by (simp add: example_world_def)

theorem domain_is_stripped_content_witness:
  "cname example_world = Inr ''example.org\<newline>''
   \<and> get_domain_from_cname example_world init_state = Inr (''example.org'', init_state)
   \<and> strip (first_line ''example.org\<newline>'') = ''example.org''"
proof -
  have sp: "\<forall>c \<in> set (dropWhile (\<lambda>c. c \<noteq> newline) ''example.org\<newline>''). isspace c"
    by (simp add: newline_def isspace_def)
  have fl: "strip (first_line ''example.org\<newline>'') = ''example.org''"
    by (simp add: first_line_def strip_def newline_def isspace_def)
  from domain_is_stripped_content [OF example_cname, of init_state] sp
  have "get_domain_from_cname example_world init_state
      = Inr (strip (first_line ''example.org\<newline>''), init_state)"
    by blast
  then have "get_domain_from_cname example_world init_state = Inr (''example.org'', init_state)"
    by (simp only: fl)
  with example_cname sp fl show ?thesis
    by blast
qed

text \<open>
  The claim as stated fails for a file of two lines: the domain is then both lines, line
  break included, not the first line.
\<close>

theorem domain_first_line_counterexample:
  "get_domain_from_cname (example_world\<lparr>cname := Inr ''example.org\<newline>www.example.org''\<rparr>) init_state
     = Inr (''example.org\<newline>www.example.org'', init_state)
   \<and> strip (first_line ''example.org\<newline>www.example.org'') = ''example.org''
   \<and> get_domain_from_cname (example_world\<lparr>cname := Inr ''example.org\<newline>www.example.org''\<rparr>) init_state
     \<noteq> Inr (strip (first_line ''example.org\<newline>www.example.org''), init_state)"
  by (simp add: get_domain_from_cname_def first_line_def strip_def newline_def isspace_def)

subsection \<open>The replacement of dot-slash in paths\<close>

lemma str_replace_skip:
  assumes "CHR ''/'' \<notin> set s"
  shows "str_replace ''./'' [] (s @ ''./'' @ t) = s @ str_replace ''./'' [] t"
  using assms
proof (induction s)
  case Nil
  show ?case by (simp add: startswith_def)
next
  case (Cons c s)
  then have "\<not> startswith (c # s @ ''./'' @ t) ''./''"
    by (cases s) (auto simp: startswith_def)
  with Cons show ?case
    by simp
qed

lemma str_replace_none:
  assumes "CHR ''/'' \<notin> set s"
  shows "str_replace ''./'' [] s = s"
  using assms
proof (induction s)
  case Nil
  show ?case by simp
next
  case (Cons c s)
  then have "\<not> startswith (c # s) ''./''"
    by (cases s) (auto simp: startswith_def)
  with Cons show ?case
    by simp
qed

lemma str_replace_keep_slash:
  assumes "CHR ''/'' \<notin> set s" and "s = [] \<or> last s \<noteq> CHR ''.''"
  shows "str_replace ''./'' [] (s @ ''/'' @ t) = s @ ''/'' @ str_replace ''./'' [] t"
  using assms
proof (induction s)
  case Nil
  show ?case by (simp add: startswith_def)
next
  case (Cons c s)
  then have "\<not> startswith (c # s @ ''/'' @ t) ''./''"
    by (cases s) (auto simp: startswith_def)
  moreover from Cons.prems have "s = [] \<or> last s \<noteq> CHR ''.''"
    by (auto split: if_splits)
  ultimately show ?case
    using Cons by simp
qed

lemma walk_root_join:
  assumes "name \<noteq> []" and "CHR ''/'' \<notin> set name"
  shows "path_join ''.'' name = ''./'' @ name"
  using assms by (cases name) (auto simp: path_join_def startswith_def endswith_def)

lemma path_join_file:
  assumes "fname \<noteq> []" and "CHR ''/'' \<notin> set fname" and "root \<noteq> []" and "last root \<noteq> CHR ''/''"
  shows "path_join root fname = root @ ''/'' @ fname"
proof -
  have "\<not> startswith fname ''/''"
    using assms(1,2) by (cases fname) (auto simp: startswith_def)
  moreover have "\<not> endswith root ''/''"
  proof
    assume "endswith root ''/''"
    then have "drop (length root - 1) root = ''/''"
      by (simp add: endswith_def)
    moreover have "drop (length root - 1) root = [last root]"
    proof -
      have "butlast root @ [last root] = root"
        using assms(3) by simp
      then have "drop (length (butlast root)) root = [last root]"
        by (metis append_eq_conv_conj)
      then show ?thesis
        by simp
    qed
    ultimately show False
      using assms(4) by simp
  qed
  ultimately show ?thesis
    using assms(3) by (simp add: path_join_def)
qed

lemma dotted_dir_path:
  assumes "CHR ''/'' \<notin> set d" and "fname \<noteq> []" and "CHR ''/'' \<notin> set fname"
  shows "str_replace ''./'' [] (path_join (path_join ''.'' (d @ ''.'')) fname) = d @ fname"
proof -
  have "path_join ''.'' (d @ ''.'') = ''./'' @ d @ ''.''"
    using assms(1) by (intro walk_root_join) auto
  then have "path_join (path_join ''.'' (d @ ''.'')) fname = ''./'' @ d @ ''./'' @ fname"
    using path_join_file [of fname "''./'' @ d @ ''.''"] assms by simp
  moreover have "str_replace ''./'' [] ([] @ ''./'' @ d @ ''./'' @ fname) = [] @ str_replace ''./'' [] (d @ ''./'' @ fname)"
    by (rule str_replace_skip) simp
  moreover have "str_replace ''./'' [] (d @ ''./'' @ fname) = d @ str_replace ''./'' [] fname"
    using assms(1) by (rule str_replace_skip)
  moreover have "str_replace ''./'' [] fname = fname"
    using assms(3) by (rule str_replace_none)
  ultimately show ?thesis
    by simp
qed

lemma str_replace_components:
  assumes "\<forall>c \<in> set comps. CHR ''/'' \<notin> set c"
  shows "str_replace ''./'' [] (join_components comps) = without_dot_slash comps"
  using assms
proof (induction comps rule: join_components.induct)
  case 1
  show ?case by simp
next
  case (2 c)
  then show ?case by (simp add: str_replace_none)
next
  case (3 c c' cs)
  let ?rest = "join_components (c' # cs)"
  from "3.prems" have c: "CHR ''/'' \<notin> set c" and rest: "\<forall>x \<in> set (c' # cs). CHR ''/'' \<notin> set x"
    by simp_all
  from "3.IH" [OF rest] have IH: "str_replace ''./'' [] ?rest = without_dot_slash (c' # cs)" .
  show ?case
  proof (cases "c \<noteq> [] \<and> last c = CHR ''.''")
    case True
    then obtain b where b: "c = b @ ''.''"
      by (metis append_butlast_last_id)
    have "CHR ''/'' \<notin> set b"
      using c b by simp
    then have "str_replace ''./'' [] (b @ ''./'' @ ?rest) = b @ str_replace ''./'' [] ?rest"
      by (rule str_replace_skip)
    with IH show ?thesis
      unfolding b by simp
  next
    case False
    then have "c = [] \<or> last c \<noteq> CHR ''.''"
      by blast
    with c have "str_replace ''./'' [] (c @ ''/'' @ ?rest) = c @ ''/'' @ str_replace ''./'' [] ?rest"
      by (rule str_replace_keep_slash)
    with False IH show ?thesis
      by auto
  qed
qed

lemma dotted_dir_url_path:
  assumes "CHR ''/'' \<notin> set d" and "fname \<noteq> []" and "CHR ''/'' \<notin> set fname"
  shows "url_path (path_join ''.'' (d @ ''.'')) fname =
     (if endswith (d @ fname) ''index.html'' then take (length (d @ fname) - 10) (d @ fname)
      else d @ fname)"
  using dotted_dir_path [OF assms]
  by (simp add: url_path_def Let_def)

text \<open>
  C10. The replacement applied to the joined path removes every occurrence of \<^verbatim>\<open>./\<close>, not
  only the leading one: in a path of components without a slash, every component but the
  last that ends in a dot loses the dot and the separator after it. So for a file in a
  directory \<^verbatim>\<open>d.\<close> under the root, the normalised path is \<^verbatim>\<open>d\<close> directly followed by the
  file name, and the URL path is derived from that.
\<close>

theorem dot_slash_removed_everywhere:
  "((\<forall>c \<in> set comps. CHR ''/'' \<notin> set c)
      \<longrightarrow> str_replace ''./'' [] (join_components comps) = without_dot_slash comps)
   \<and> (CHR ''/'' \<notin> set d \<and> fname \<noteq> [] \<and> CHR ''/'' \<notin> set fname
      \<longrightarrow> str_replace ''./'' [] (path_join (path_join ''.'' (d @ ''.'')) fname) = d @ fname
        \<and> url_path (path_join ''.'' (d @ ''.'')) fname =
            (if endswith (d @ fname) ''index.html''
             then take (length (d @ fname) - 10) (d @ fname)
             else d @ fname))"
  using str_replace_components [of comps] dotted_dir_path [of d fname] dotted_dir_url_path [of d fname]
  by blast

theorem dot_slash_removed_everywhere_witness:
  "str_replace ''./'' [] (join_components [''.'', ''v1.'', ''page.html'']) = ''v1page.html''
   \<and> str_replace ''./'' [] (path_join (path_join ''.'' ''v1.'') ''page.html'') = ''v1page.html''
   \<and> url_path (path_join ''.'' ''v1.'') ''page.html'' = ''v1page.html''
   \<and> get_all_html_files (example_world\<lparr>tree := Dir [] [(''v1.'', Dir [''page.html''] [])]\<rparr>)
       = [''v1page.html'']"
proof -
  have "get_all_html_files (example_world\<lparr>tree := Dir [] [(''v1.'', Dir [''page.html''] [])]\<rparr>)
      = [''v1page.html'']"
    by code_simp
  with dot_slash_removed_everywhere [of "[''.'', ''v1.'', ''page.html'']" "''v1''" "''page.html''"]
  show ?thesis
    by (simp add: endswith_def)
qed

subsection \<open>File names that end in index.html\<close>

text \<open>
  C3. The script tests \<^verbatim>\<open>full_path.endswith('index.html')\<close> on the whole path, so a file
  whose name only ends in these ten characters is cut as well: \<^verbatim>\<open>myindex.html\<close> in the
  root becomes the URL path \<^verbatim>\<open>my\<close>, although its last component is not \<^verbatim>\<open>index.html\<close>.
\<close>

theorem index_suffix_overmatch:
  "get_all_html_files (example_world\<lparr>tree := Dir [''myindex.html''] []\<rparr>) = [''my'']"
  by code_simp

subsection \<open>What a run that ends without an exception has done\<close>

lemma generated_name_shape:
  "\<exists>token. fst (generate_random_name w default_length st) = ''sm_'' @ token @ ''.xml''
     \<and> length token = 12 \<and> set token \<subseteq> set letters"
  using random_token_shape [of w default_length st] generate_random_name_eq [of w default_length st]
  by (simp add: default_length_def)

lemma generated_name_not_reserved:
  "fst (generate_random_name w default_length st) \<noteq> ''sitemap.xml''"
  "fst (generate_random_name w default_length st) \<noteq> ''robots.txt''"
proof -
  obtain token where "fst (generate_random_name w default_length st) = ''sm_'' @ token @ ''.xml''"
    and "length token = 12"
    using generated_name_shape by blast
  then have "length (fst (generate_random_name w default_length st)) = 19"
    by simp
  then show "fst (generate_random_name w default_length st) \<noteq> ''sitemap.xml''"
    and "fst (generate_random_name w default_length st) \<noteq> ''robots.txt''"
    by auto
qed

lemma random_token_written:
  "written (snd (random_token w n st)) = written st \<and> stdout (snd (random_token w n st)) = stdout st"
  by (induction n arbitrary: st) (simp_all add: random_choice_def case_prod_beta)

lemma generate_random_name_written:
  "written (snd (generate_random_name w len st)) = written st
   \<and> stdout (snd (generate_random_name w len st)) = stdout st"
  using random_token_written [of w len st]
  by (simp add: generate_random_name_def case_prod_beta)

lemma write_chunks_Inr:
  assumes "write_chunks w domain chunks acc st = Inr (names, st')"
  shows "\<exists>new out. names = acc @ new \<and> length new = length chunks
     \<and> written st' =
         written st @ zip new (map (\<lambda>chunk. sitemap_chunk_content chunk domain (today w)) chunks)
     \<and> stdout st' = stdout st @ out
     \<and> (\<forall>name \<in> set new. (\<exists>s. name = fst (generate_random_name w default_length s)) \<and> open_w_error w name = None)"
  using assms
proof (induction chunks arbitrary: acc st)
  case Nil
  then show ?case by simp
next
  case (Cons chunk chunks)
  obtain new_name st1 where gen: "generate_random_name w default_length st = (new_name, st1)"
    by (cases "generate_random_name w default_length st")
  then have name: "\<exists>s. new_name = fst (generate_random_name w default_length s)"
    by (auto intro: exI [of _ st])
  from gen have st1: "written st1 = written st" "stdout st1 = stdout st"
    using generate_random_name_written [of w default_length st] by simp_all
  from Cons.prems gen obtain st2
    where wr: "create_sitemap_chunk w chunk domain new_name st1 = Inr st2"
      and rest: "write_chunks w domain chunks (acc @ [new_name])
                   (print (''Generated new chunk: '' @ new_name) st2) = Inr (names, st')"
    by (auto split: sum.splits)
  from wr have ok: "open_w_error w new_name = None"
    and st2: "written st2 = written st1 @ [(new_name, sitemap_chunk_content chunk domain (today w))]"
      "stdout st2 = stdout st1"
    by (auto simp: create_sitemap_chunk_def write_file_def split: option.splits)
  from Cons.IH [OF rest] obtain new out where new: "names = (acc @ [new_name]) @ new"
    "length new = length chunks"
    "written st' = written (print (''Generated new chunk: '' @ new_name) st2)
        @ zip new (map (\<lambda>chunk. sitemap_chunk_content chunk domain (today w)) chunks)"
    "stdout st' = stdout (print (''Generated new chunk: '' @ new_name) st2) @ out"
    "\<forall>name \<in> set new. (\<exists>s. name = fst (generate_random_name w default_length s)) \<and> open_w_error w name = None"
    by blast
  have "names = acc @ (new_name # new)"
    using new(1) by simp
  moreover have "length (new_name # new) = length (chunk # chunks)"
    using new(2) by simp
  moreover have "written st' = written st
      @ zip (new_name # new) (map (\<lambda>chunk. sitemap_chunk_content chunk domain (today w)) (chunk # chunks))"
    using new(3) st1 st2 by (simp add: print_def)
  moreover have "stdout st' = stdout st @ ((''Generated new chunk: '' @ new_name) # out)"
    using new(4) st1 st2 by (simp add: print_def)
  moreover have "\<forall>name \<in> set (new_name # new). (\<exists>s. name = fst (generate_random_name w default_length s)) \<and> open_w_error w name = None"
    using new(5) name ok by simp
  ultimately show ?case
    by blast
qed

lemma write_chunks_succeeds:
  assumes "\<forall>f. open_w_error w f = None"
  shows "\<exists>r. write_chunks w domain chunks acc st = Inr r"
proof (induction chunks arbitrary: acc st)
  case Nil
  show ?case by simp
next
  case (Cons chunk chunks)
  obtain new_name st1 where gen: "generate_random_name w default_length st = (new_name, st1)"
    by (cases "generate_random_name w default_length st")
  have "create_sitemap_chunk w chunk domain new_name st1
      = Inr (st1\<lparr>written := written st1 @ [(new_name, sitemap_chunk_content chunk domain (today w))]\<rparr>)"
    using assms by (simp add: create_sitemap_chunk_def write_file_def)
  with gen Cons.IH show ?case
    by simp
qed

lemma main_index_content_eq:
  \<open>main_index_content sitemap_files domain =
     xml_header @ ''<sitemapindex xmlns="http://www.sitemaps.org/schemas/sitemap/0.9">\<newline>''
     @ concat (map (index_entry domain) (sorted_set sitemap_files)) @ ''</sitemapindex>''\<close>
  by (simp add: main_index_content_def foldl_append_concat)

lemma sorted_set_props:
  "sorted (sorted_set fs) \<and> distinct (sorted_set fs) \<and> set (sorted_set fs) = set fs"
  by (simp add: sorted_set_def)

lemma main_Inr:
  assumes "main w = Inr st"
  shows "\<exists>domain st1 names new out.
      get_domain_from_cname w init_state = Inr (domain, st1)
    \<and> listdir w = Inr names
    \<and> length new = length (chunks_of MAX_URLS (get_all_html_files w))
    \<and> (\<forall>name \<in> set new. (\<exists>s. name = fst (generate_random_name w default_length s)) \<and> open_w_error w name = None)
    \<and> open_w_error w ''sitemap.xml'' = None
    \<and> open_w_error w ''robots.txt'' = None
    \<and> written st =
        written st1
        @ zip new (map (\<lambda>chunk. sitemap_chunk_content chunk domain (today w))
            (chunks_of MAX_URLS (get_all_html_files w)))
        @ [(''sitemap.xml'', main_index_content (filter (match_anchored pattern) names @ new) domain),
           (''robots.txt'', robots_txt_content domain)]
    \<and> stdout st = stdout st1 @ out"
proof -
  let ?chunks = "chunks_of MAX_URLS (get_all_html_files w)"
  from assms obtain domain st1 where dom: "get_domain_from_cname w init_state = Inr (domain, st1)"
    by (auto simp: main_def split: sum.splits)
  from assms dom obtain existing where ex: "get_existing_sitemaps w = Inr existing"
    by (auto simp: main_def Let_def split: sum.splits)
  then obtain names where names: "listdir w = Inr names"
    and existing: "existing = filter (match_anchored pattern) names"
    by (auto simp: get_existing_sitemaps_def split: sum.splits)
  from assms dom ex obtain total st2 where wc: "write_chunks w domain ?chunks [] st1 = Inr (total, st2)"
    by (auto simp: main_def Let_def split: sum.splits)
  from write_chunks_Inr [OF wc] obtain new out where new: "total = new" "length new = length ?chunks"
    "written st2 = written st1 @ zip new (map (\<lambda>chunk. sitemap_chunk_content chunk domain (today w)) ?chunks)"
    "stdout st2 = stdout st1 @ out"
    "\<forall>name \<in> set new. (\<exists>s. name = fst (generate_random_name w default_length s)) \<and> open_w_error w name = None"
    by auto
  from assms dom ex wc obtain st3 where idx: "create_main_index w (existing @ total) domain st2 = Inr st3"
    and rob: "create_robots_txt w domain
        (print (''Updated sitemap.xml with '' @ str_of_nat (length (existing @ total))
                  @ '' total sitemap files.'') st3) = Inr st"
    by (auto simp: main_def Let_def split: sum.splits)
  from idx have i: "open_w_error w ''sitemap.xml'' = None"
    "written st3 = written st2 @ [(''sitemap.xml'', main_index_content (existing @ total) domain)]"
    "stdout st3 = stdout st2"
    by (auto simp: create_main_index_def write_file_def split: option.splits)
  from rob have r: "open_w_error w ''robots.txt'' = None"
    "written st = written st3 @ [(''robots.txt'', robots_txt_content domain)]"
    "stdout st = stdout st3 @ [''Updated sitemap.xml with '' @ str_of_nat (length (existing @ total))
                  @ '' total sitemap files.'']"
    by (auto simp: create_robots_txt_def write_file_def print_def split: option.splits)
  have "written st = written st1
        @ zip new (map (\<lambda>chunk. sitemap_chunk_content chunk domain (today w)) ?chunks)
        @ [(''sitemap.xml'', main_index_content (filter (match_anchored pattern) names @ new) domain),
           (''robots.txt'', robots_txt_content domain)]"
    using i(2) r(2) new(1,3) existing by simp
  moreover have "stdout st = stdout st1 @ (out @ [''Updated sitemap.xml with ''
        @ str_of_nat (length (existing @ total)) @ '' total sitemap files.''])"
    using i(3) r(3) new(4) by simp
  ultimately show ?thesis
    using dom names new(2,5) i(1) r(1) by blast
qed

lemma main_succeeds:
  assumes "get_domain_from_cname w init_state = Inr (domain, st1)"
    and "listdir w = Inr names"
    and "\<forall>f. open_w_error w f = None"
  shows "\<exists>st. main w = Inr st"
proof -
  from write_chunks_succeeds [OF assms(3)]
  obtain total st2 where "write_chunks w domain (chunks_of MAX_URLS (get_all_html_files w)) [] st1
      = Inr (total, st2)"
    by fastforce
  with assms show ?thesis
    by (simp add: main_def get_existing_sitemaps_def create_main_index_def create_robots_txt_def
        write_file_def Let_def)
qed

lemma get_domain_written:
  assumes "get_domain_from_cname w init_state = Inr (domain, st1)"
  shows "written st1 = []"
  using assms
  by (auto simp: get_domain_from_cname_def init_state_def print_def split: sum.splits error.splits)

lemma created_fragments_eq:
  assumes "written st = zip new contents @ [(''sitemap.xml'', idx), (''robots.txt'', rob)]"
    and "length new = length contents"
    and "\<forall>name \<in> set new. (\<exists>s. name = fst (generate_random_name w default_length s))"
  shows "created_fragments st = new"
proof -
  have "\<forall>name \<in> set new. name \<noteq> ''sitemap.xml'' \<and> name \<noteq> ''robots.txt''"
    using assms(3) generated_name_not_reserved by metis
  then have "filter (\<lambda>f. f \<noteq> ''sitemap.xml'' \<and> f \<noteq> ''robots.txt'') new = new"
    by (simp add: filter_id_conv)
  then show ?thesis
    using assms(1,2) by (simp add: created_fragments_def)
qed

lemma index_file_content:
  assumes "written st = frags @ [(''sitemap.xml'', idx), (''robots.txt'', rob)]"
  shows "file_content st ''sitemap.xml'' = Some idx" and "file_content st ''robots.txt'' = Some rob"
  using assms by (simp_all add: file_content_def)

lemma map_fst_zip_eq: "length xs = length ys \<Longrightarrow> map fst (zip xs ys) = xs"
  by (induction xs ys rule: list_induct2) simp_all

lemma main_written_ok:
  assumes "main w = Inr st"
  shows "list_all (\<lambda>f. open_w_error w f = None) (map fst (written st))"
proof -
  let ?chunks = "chunks_of MAX_URLS (get_all_html_files w)"
  from main_Inr [OF assms] obtain domain st1 names new
    where dom: "get_domain_from_cname w init_state = Inr (domain, st1)"
      and len: "length new = length ?chunks"
      and gen: "\<forall>name \<in> set new. (\<exists>s. name = fst (generate_random_name w default_length s)) \<and> open_w_error w name = None"
      and ok: "open_w_error w ''sitemap.xml'' = None" "open_w_error w ''robots.txt'' = None"
      and wr: "written st = written st1
        @ zip new (map (\<lambda>chunk. sitemap_chunk_content chunk domain (today w)) ?chunks)
        @ [(''sitemap.xml'', main_index_content (filter (match_anchored pattern) names @ new) domain),
           (''robots.txt'', robots_txt_content domain)]"
    by blast
  have "map fst (written st) = new @ [''sitemap.xml'', ''robots.txt'']"
    unfolding wr get_domain_written [OF dom] using len by (simp add: map_fst_zip_eq)
  with gen ok show ?thesis
    by (simp add: list_all_iff)
qed

lemma main_fails_cname:
  assumes "cname w = Inl e" and "e \<noteq> FileNotFoundError"
  shows "get_domain_from_cname w st = Inl e" and "main w = Inl e"
proof -
  show "get_domain_from_cname w st = Inl e" for st
    using assms by (cases e) (simp_all add: get_domain_from_cname_def)
  then show "main w = Inl e"
    by (simp add: main_def)
qed

lemma main_fails_listdir:
  assumes "listdir w = Inl e"
  shows "\<exists>e'. main w = Inl e'"
proof (cases "main w")
  case (Inl e')
  then show ?thesis by blast
next
  case (Inr st)
  from main_Inr [OF this] assms show ?thesis
    by auto
qed

lemma main_fails_write:
  assumes "open_w_error w ''sitemap.xml'' = Some e \<or> open_w_error w ''robots.txt'' = Some e"
  shows "\<exists>e'. main w = Inl e'"
proof (cases "main w")
  case (Inl e')
  then show ?thesis by blast
next
  case (Inr st)
  from main_Inr [OF this] assms show ?thesis
    by auto
qed

lemma main_missing_cname:
  assumes "cname w = Inl FileNotFoundError" and "listdir w = Inr names"
    and "\<forall>f. open_w_error w f = None"
  shows "\<exists>st' new out.
          main w = Inr st'
        \<and> stdout st' = cname_warning # out
        \<and> length new = length (chunks_of MAX_URLS (get_all_html_files w))
        \<and> written st' =
             zip new (map (\<lambda>chunk. sitemap_chunk_content chunk ''example.com'' (today w))
                       (chunks_of MAX_URLS (get_all_html_files w)))
             @ [(''sitemap.xml'',
                 main_index_content (filter (match_anchored pattern) names @ new) ''example.com''),
                (''robots.txt'', robots_txt_content ''example.com'')]"
proof -
  have dom: "get_domain_from_cname w init_state
      = Inr (''example.com'', print cname_warning init_state)"
    using assms(1) by (simp add: get_domain_from_cname_def)
  from main_succeeds [OF dom assms(2,3)] obtain st' where run: "main w = Inr st'"
    by blast
  from main_Inr [OF run] dom assms(2) obtain new out
    where "length new = length (chunks_of MAX_URLS (get_all_html_files w))"
      and "written st' = written (print cname_warning init_state)
        @ zip new (map (\<lambda>chunk. sitemap_chunk_content chunk ''example.com'' (today w))
                    (chunks_of MAX_URLS (get_all_html_files w)))
        @ [(''sitemap.xml'',
            main_index_content (filter (match_anchored pattern) names @ new) ''example.com''),
           (''robots.txt'', robots_txt_content ''example.com'')]"
      and "stdout st' = stdout (print cname_warning init_state) @ out"
    by auto
  with run show ?thesis
    by (auto simp: print_def init_state_def)
qed

lemma chunks_of_Nil: "chunks_of n [] = []"
  by (cases n) (simp_all add: chunks_of_def range_step_def)

lemma random_token_rng: "rng_pos (snd (random_token w n st)) = rng_pos st + n"
  by (induction n arbitrary: st) (simp_all add: random_choice_def case_prod_beta)

lemma random_token_same:
  "rng_pos st = rng_pos st' \<Longrightarrow> fst (random_token w n st) = fst (random_token w n st')"
proof (induction n arbitrary: st st')
  case 0
  show ?case by simp
next
  case (Suc n)
  have "fst (random_token w n (st\<lparr>rng_pos := Suc (rng_pos st)\<rparr>))
      = fst (random_token w n (st'\<lparr>rng_pos := Suc (rng_pos st')\<rparr>))"
    using Suc.prems by (intro Suc.IH) simp
  with Suc.prems show ?case
    by (simp add: random_choice_def case_prod_beta)
qed

lemma generate_random_name_rng:
  "rng_pos (snd (generate_random_name w len st)) = rng_pos st + len"
  using random_token_rng [of w len st] by (simp add: generate_random_name_def case_prod_beta)

lemma fragment_name_at:
  assumes "rng_pos st = k * default_length"
  shows "fst (generate_random_name w default_length st) = fragment_name w k"
proof -
  have "fst (random_token w default_length st)
      = fst (random_token w default_length (init_state\<lparr>rng_pos := k * default_length\<rparr>))"
    using assms by (intro random_token_same) simp
  then show ?thesis
    by (simp add: fragment_name_def generate_random_name_eq)
qed

lemma write_chunks_names:
  assumes "write_chunks w domain chunks acc st = Inr (names, st')"
    and "rng_pos st = k * default_length"
  shows "names = acc @ map (fragment_name w) [k ..< k + length chunks]"
  using assms
proof (induction chunks arbitrary: acc st k)
  case Nil
  then show ?case by simp
next
  case (Cons chunk chunks)
  obtain new_name st1 where gen: "generate_random_name w default_length st = (new_name, st1)"
    by (cases "generate_random_name w default_length st")
  then have name: "new_name = fragment_name w k"
    using fragment_name_at [OF Cons.prems(2), of w] by simp
  from gen have pos: "rng_pos st1 = Suc k * default_length"
    using generate_random_name_rng [of w default_length st] Cons.prems(2) by simp
  from Cons.prems(1) gen obtain st2
    where wr: "create_sitemap_chunk w chunk domain new_name st1 = Inr st2"
      and rest: "write_chunks w domain chunks (acc @ [new_name])
                   (print (''Generated new chunk: '' @ new_name) st2) = Inr (names, st')"
    by (auto split: sum.splits)
  from wr pos have "rng_pos (print (''Generated new chunk: '' @ new_name) st2) = Suc k * default_length"
    by (auto simp: create_sitemap_chunk_def write_file_def print_def split: option.splits)
  from Cons.IH [OF rest this] have "names = (acc @ [new_name]) @ map (fragment_name w) [Suc k ..< Suc k + length chunks]"
    .
  moreover have "[k ..< k + length (chunk # chunks)] = k # [Suc k ..< Suc k + length chunks]"
    by (simp del: upt_Suc add: upt_rec [of k])
  ultimately show ?case
    by (simp only: name list.map append_Cons append_Nil append_assoc)
qed

lemma write_chunks_fails:
  assumes "rng_pos st = k * default_length"
    and "j < length chunks"
    and "\<forall>i<j. open_w_error w (fragment_name w (k + i)) = None"
    and "open_w_error w (fragment_name w (k + j)) = Some e"
  shows "write_chunks w domain chunks acc st = Inl e"
  using assms
proof (induction chunks arbitrary: acc st k j)
  case Nil
  then show ?case by simp
next
  case (Cons chunk chunks)
  obtain new_name st1 where gen: "generate_random_name w default_length st = (new_name, st1)"
    by (cases "generate_random_name w default_length st")
  then have name: "new_name = fragment_name w k"
    using fragment_name_at [OF Cons.prems(1), of w] by simp
  from gen have pos: "rng_pos st1 = Suc k * default_length"
    using generate_random_name_rng [of w default_length st] Cons.prems(1) by simp
  show ?case
  proof (cases j)
    case 0
    with Cons.prems(4) name have "open_w_error w new_name = Some e"
      by simp
    with gen show ?thesis
      by (simp add: create_sitemap_chunk_def write_file_def)
  next
    case (Suc j')
    with Cons.prems(3) [rule_format, of 0] name have ok: "open_w_error w new_name = None"
      by simp
    let ?st2 = "st1\<lparr>written := written st1 @ [(new_name, sitemap_chunk_content chunk domain (today w))]\<rparr>"
    let ?st3 = "print (''Generated new chunk: '' @ new_name) ?st2"
    have pos3: "rng_pos ?st3 = Suc k * default_length"
      using pos by (simp add: print_def)
    have "write_chunks w domain chunks (acc @ [new_name]) ?st3 = Inl e"
    proof (rule Cons.IH [OF pos3, of j'])
      show "j' < length chunks"
        using Cons.prems(2) Suc by simp
      show "\<forall>i<j'. open_w_error w (fragment_name w (Suc k + i)) = None"
        using Cons.prems(3) Suc by (metis Suc_less_eq add_Suc add_Suc_right)
      show "open_w_error w (fragment_name w (Suc k + j')) = Some e"
        using Cons.prems(4) Suc by simp
    qed
    with gen ok show ?thesis
      by (simp add: create_sitemap_chunk_def write_file_def)
  qed
qed

lemma get_domain_rng:
  assumes "get_domain_from_cname w init_state = Inr (domain, st1)"
  shows "rng_pos st1 = 0"
  using assms
  by (auto simp: get_domain_from_cname_def init_state_def print_def split: sum.splits error.splits)

lemma main_fails_fragment:
  assumes "get_domain_from_cname w init_state = Inr (domain, st1)"
    and "listdir w = Inr names"
    and "j < length (chunks_of MAX_URLS (get_all_html_files w))"
    and "\<forall>i<j. open_w_error w (fragment_name w i) = None"
    and "open_w_error w (fragment_name w j) = Some e"
  shows "main w = Inl e"
proof -
  have "rng_pos st1 = 0 * default_length"
    using get_domain_rng [OF assms(1)] by simp
  from write_chunks_fails [OF this assms(3), of w e domain "[]"] assms(4,5)
  have "write_chunks w domain (chunks_of MAX_URLS (get_all_html_files w)) [] st1 = Inl e"
    by simp
  with assms(1,2) show ?thesis
    by (simp add: main_def get_existing_sitemaps_def)
qed

lemma main_fragment_names:
  assumes "main w = Inr st"
  shows "created_fragments st
      = map (fragment_name w) [0 ..< length (chunks_of MAX_URLS (get_all_html_files w))]"
proof -
  let ?chunks = "chunks_of MAX_URLS (get_all_html_files w)"
  from assms obtain domain st1 where dom: "get_domain_from_cname w init_state = Inr (domain, st1)"
    by (auto simp: main_def split: sum.splits)
  from assms dom obtain existing where ex: "get_existing_sitemaps w = Inr existing"
    by (auto simp: main_def Let_def split: sum.splits)
  from assms dom ex obtain total st2 where wc: "write_chunks w domain ?chunks [] st1 = Inr (total, st2)"
    by (auto simp: main_def Let_def split: sum.splits)
  have "rng_pos st1 = 0 * default_length"
    using get_domain_rng [OF dom] by simp
  from write_chunks_names [OF wc this] have total: "total = map (fragment_name w) [0 ..< length ?chunks]"
    by simp
  from write_chunks_Inr [OF wc] obtain new
    where new: "total = new" "length new = length ?chunks"
      "written st2 = written st1 @ zip new (map (\<lambda>chunk. sitemap_chunk_content chunk domain (today w)) ?chunks)"
      "\<forall>name \<in> set new. (\<exists>s. name = fst (generate_random_name w default_length s))"
    by auto
  from assms dom ex wc obtain idx rob where "written st = written st2 @ [(''sitemap.xml'', idx), (''robots.txt'', rob)]"
    by (auto simp: main_def Let_def create_main_index_def create_robots_txt_def write_file_def
        print_def split: sum.splits option.splits)
  with new(3) get_domain_written [OF dom]
  have "written st = zip new (map (\<lambda>chunk. sitemap_chunk_content chunk domain (today w)) ?chunks)
      @ [(''sitemap.xml'', idx), (''robots.txt'', rob)]"
    by simp
  from created_fragments_eq [OF this _ new(4)] new(2) have "created_fragments st = new"
    by simp
  with new(1) total show ?thesis
    by simp
qed

subsection \<open>The run on the small site\<close>

lemma example_domain:
  "get_domain_from_cname example_world init_state = Inr (''example.org'', init_state)"
  by (simp add: get_domain_from_cname_def example_world_def strip_def isspace_def)

lemma example_urls: "get_all_html_files example_world = [''b.html'', ''a/'']"
  by code_simp

lemma example_chunks: "chunks_of MAX_URLS [''b.html'', ''a/''] = [[''b.html'', ''a/'']]"
  by (simp add: chunks_of_def range_step_def slice_def MAX_URLS_def)

lemma example_name:
  "generate_random_name example_world default_length init_state
     = (''sm_dkry5cjqx4bi.xml'', init_state\<lparr>rng_pos := 12\<rparr>)"
  by code_simp

lemma example_existing:
  "filter (match_anchored pattern) [''sm_prev0run1.xml'', ''sitemap.xml'', ''a'', ''b.html'', ''CNAME'']
     = [''sm_prev0run1.xml'']"
  by code_simp

lemma example_run:
  "main example_world =
     Inr \<lparr>written =
            [(''sm_dkry5cjqx4bi.xml'',
                sitemap_chunk_content [''b.html'', ''a/''] ''example.org'' ''2024-01-01''),
             (''sitemap.xml'',
                main_index_content [''sm_prev0run1.xml'', ''sm_dkry5cjqx4bi.xml''] ''example.org''),
             (''robots.txt'', robots_txt_content ''example.org'')],
          stdout =
            [''Generated new chunk: sm_dkry5cjqx4bi.xml'',
             ''Updated sitemap.xml with 2 total sitemap files.''],
          rng_pos = 12\<rparr>"
proof -
  have ex: "get_existing_sitemaps example_world = Inr [''sm_prev0run1.xml'']"
    using example_existing by (simp add: get_existing_sitemaps_def example_world_def)
  have props: "open_w_error example_world = (\<lambda>_. None)" "today example_world = ''2024-01-01''"
    by (simp_all add: example_world_def)
  have two: "str_of_nat (Suc (Suc 0)) = ''2''"
    by code_simp
  show ?thesis
    unfolding main_def example_domain example_urls ex
    by (simp add: example_chunks example_name [unfolded init_state_def] create_sitemap_chunk_def create_main_index_def
        create_robots_txt_def write_file_def print_def props init_state_def two)
qed

lemma example_existing_set:
  "{f \<in> set [''sm_prev0run1.xml'', ''sitemap.xml'', ''a'', ''b.html'', ''CNAME''].
      match_anchored pattern f} = {''sm_prev0run1.xml''}"
proof -
  have "set (filter (match_anchored pattern)
           [''sm_prev0run1.xml'', ''sitemap.xml'', ''a'', ''b.html'', ''CNAME''])
      = set [''sm_prev0run1.xml'']"
    by (simp only: example_existing)
  then show ?thesis
    by (simp only: set_filter list.set)
qed

lemma singleton_entries:
  assumes "set entries = {x}" and "distinct entries"
  shows "entries = [x]"
  using assms by (cases entries; cases "tl entries") auto

subsection \<open>The index of the fragments\<close>

text \<open>
  C1. After a run that ends without an exception, \<^verbatim>\<open>sitemap.xml\<close> holds one entry for
  each element of a list that is sorted and has no duplicates, and whose elements are
  exactly the names that \<^verbatim>\<open>os.listdir\<close> gave before the run and that match the fragment
  pattern, together with the names of the fragments that the run created.
\<close>

theorem index_fragment_set:
  assumes "main w = Inr st"
  shows \<open>\<exists>names domain st1 entries.
      listdir w = Inr names
    \<and> get_domain_from_cname w init_state = Inr (domain, st1)
    \<and> set entries = {f \<in> set names. match_anchored pattern f} \<union> set (created_fragments st)
    \<and> sorted entries \<and> distinct entries
    \<and> file_content st ''sitemap.xml'' =
        Some (xml_header @ ''<sitemapindex xmlns="http://www.sitemaps.org/schemas/sitemap/0.9">\<newline>''
              @ concat (map (index_entry domain) entries) @ ''</sitemapindex>'')\<close>
proof -
  let ?contents = "\<lambda>domain. map (\<lambda>chunk. sitemap_chunk_content chunk domain (today w))
      (chunks_of MAX_URLS (get_all_html_files w))"
  from main_Inr [OF assms] obtain domain st1 names new
    where dom: "get_domain_from_cname w init_state = Inr (domain, st1)"
      and names: "listdir w = Inr names"
      and len: "length new = length (chunks_of MAX_URLS (get_all_html_files w))"
      and gen: "\<forall>name \<in> set new. (\<exists>s. name = fst (generate_random_name w default_length s)) \<and> open_w_error w name = None"
      and wr: "written st = written st1 @ zip new (?contents domain)
        @ [(''sitemap.xml'', main_index_content (filter (match_anchored pattern) names @ new) domain),
           (''robots.txt'', robots_txt_content domain)]"
    by blast
  from wr get_domain_written [OF dom]
  have wr': "written st = zip new (?contents domain)
        @ [(''sitemap.xml'', main_index_content (filter (match_anchored pattern) names @ new) domain),
           (''robots.txt'', robots_txt_content domain)]"
    by simp
  have created: "created_fragments st = new"
    using wr' len gen by (intro created_fragments_eq [where w = w]) auto
  let ?entries = "sorted_set (filter (match_anchored pattern) names @ new)"
  have "set ?entries = {f \<in> set names. match_anchored pattern f} \<union> set (created_fragments st)"
    using sorted_set_props [of "filter (match_anchored pattern) names @ new"] created by auto
  moreover have "sorted ?entries" "distinct ?entries"
    using sorted_set_props by blast+
  moreover have "file_content st ''sitemap.xml''
      = Some (main_index_content (filter (match_anchored pattern) names @ new) domain)"
    using wr' by (rule index_file_content)
  ultimately show ?thesis
    using names dom unfolding main_index_content_eq by blast
qed

theorem index_fragment_set_witness:
  \<open>\<exists>st entries.
      main example_world = Inr st
    \<and> created_fragments st = [''sm_dkry5cjqx4bi.xml'']
    \<and> set entries = {''sm_prev0run1.xml'', ''sm_dkry5cjqx4bi.xml''}
    \<and> sorted entries \<and> distinct entries
    \<and> file_content st ''sitemap.xml'' =
        Some (xml_header @ ''<sitemapindex xmlns="http://www.sitemaps.org/schemas/sitemap/0.9">\<newline>''
              @ concat (map (index_entry ''example.org'') entries) @ ''</sitemapindex>'')\<close>
proof -
  let ?names = "[''sm_prev0run1.xml'', ''sitemap.xml'', ''a'', ''b.html'', ''CNAME'']"
  from example_run obtain st where run: "main example_world = Inr st"
    and wr: "map fst (written st) = [''sm_dkry5cjqx4bi.xml'', ''sitemap.xml'', ''robots.txt'']"
    by simp
  from wr have created: "created_fragments st = [''sm_dkry5cjqx4bi.xml'']"
    by (simp add: created_fragments_def)
  have names: "listdir example_world = Inr ?names"
    by (simp add: example_world_def)
  note existing = example_existing_set
  from index_fragment_set [OF run] obtain entries
    where "set entries = {f \<in> set ?names. match_anchored pattern f} \<union> set (created_fragments st)"
      and "sorted entries" "distinct entries"
      and \<open>file_content st ''sitemap.xml'' =
        Some (xml_header @ ''<sitemapindex xmlns="http://www.sitemaps.org/schemas/sitemap/0.9">\<newline>''
              @ concat (map (index_entry ''example.org'') entries) @ ''</sitemapindex>'')\<close>
    unfolding names example_domain by auto
  with run created existing show ?thesis
    by auto
qed

subsection \<open>A site without pages\<close>

text \<open>
  C9. If the walk finds no HTML file, the list of chunks is empty; then, provided that the
  marker file can be read or is absent, the directory can be listed and the two files can
  be opened for writing, the run ends without an exception, creates no fragment, and
  writes exactly \<^verbatim>\<open>sitemap.xml\<close>, with one entry for each name listed before the run that
  matches the fragment pattern and no other entry, and \<^verbatim>\<open>robots.txt\<close>.
\<close>

theorem no_pages_run:
  assumes "get_all_html_files w = []"
    and "get_domain_from_cname w init_state = Inr (domain, st1)"
    and "listdir w = Inr names"
    and "open_w_error w ''sitemap.xml'' = None"
    and "open_w_error w ''robots.txt'' = None"
  shows \<open>chunks_of MAX_URLS (get_all_html_files w) = []
    \<and> (\<exists>st entries.
          main w = Inr st
        \<and> created_fragments st = []
        \<and> map fst (written st) = [''sitemap.xml'', ''robots.txt'']
        \<and> set entries = {f \<in> set names. match_anchored pattern f}
        \<and> sorted entries \<and> distinct entries
        \<and> file_content st ''sitemap.xml'' =
            Some (xml_header @ ''<sitemapindex xmlns="http://www.sitemaps.org/schemas/sitemap/0.9">\<newline>''
                  @ concat (map (index_entry domain) entries) @ ''</sitemapindex>'')
        \<and> file_content st ''robots.txt'' = Some (robots_txt_content domain))\<close>
proof -
  let ?existing = "filter (match_anchored pattern) names"
  have chunks: "chunks_of MAX_URLS (get_all_html_files w) = []"
    using assms(1) by (simp add: chunks_of_Nil)
  have "\<exists>st. main w = Inr st
      \<and> written st = [(''sitemap.xml'', main_index_content ?existing domain),
                      (''robots.txt'', robots_txt_content domain)]"
    using assms chunks get_domain_written [OF assms(2)]
    by (simp add: main_def get_existing_sitemaps_def create_main_index_def create_robots_txt_def
        write_file_def print_def)
  then obtain st where run: "main w = Inr st"
    and wr: "written st = [(''sitemap.xml'', main_index_content ?existing domain),
                           (''robots.txt'', robots_txt_content domain)]"
    by blast
  have created: "created_fragments st = []"
    and files: "map fst (written st) = [''sitemap.xml'', ''robots.txt'']"
    unfolding created_fragments_def wr by simp_all
  have idx: \<open>file_content st ''sitemap.xml'' =
      Some (xml_header @ ''<sitemapindex xmlns="http://www.sitemaps.org/schemas/sitemap/0.9">\<newline>''
            @ concat (map (index_entry domain) (sorted_set ?existing)) @ ''</sitemapindex>'')\<close>
    unfolding file_content_def wr main_index_content_eq by simp
  have rob: "file_content st ''robots.txt'' = Some (robots_txt_content domain)"
    unfolding file_content_def wr by simp
  have entries: "set (sorted_set ?existing) = {f \<in> set names. match_anchored pattern f}"
    "sorted (sorted_set ?existing)" "distinct (sorted_set ?existing)"
    using sorted_set_props [of ?existing] by auto
  from run created files entries idx rob have \<open>\<exists>st entries.
          main w = Inr st
        \<and> created_fragments st = []
        \<and> map fst (written st) = [''sitemap.xml'', ''robots.txt'']
        \<and> set entries = {f \<in> set names. match_anchored pattern f}
        \<and> sorted entries \<and> distinct entries
        \<and> file_content st ''sitemap.xml'' =
            Some (xml_header @ ''<sitemapindex xmlns="http://www.sitemaps.org/schemas/sitemap/0.9">\<newline>''
                  @ concat (map (index_entry domain) entries) @ ''</sitemapindex>'')
        \<and> file_content st ''robots.txt'' = Some (robots_txt_content domain)\<close>
    by (intro exI [of _ st] exI [of _ "sorted_set ?existing"] conjI)
  with chunks show ?thesis
    by (intro conjI)
qed

theorem no_pages_run_witness:
  \<open>get_all_html_files (example_world\<lparr>tree := Dir [''style.css''] [(''.git'', Dir [''x.html''] [])]\<rparr>) = []
   \<and> (\<exists>st.
        main (example_world\<lparr>tree := Dir [''style.css''] [(''.git'', Dir [''x.html''] [])]\<rparr>) = Inr st
      \<and> created_fragments st = []
      \<and> map fst (written st) = [''sitemap.xml'', ''robots.txt'']
      \<and> file_content st ''sitemap.xml'' =
          Some (xml_header @ ''<sitemapindex xmlns="http://www.sitemaps.org/schemas/sitemap/0.9">\<newline>''
                @ index_entry ''example.org'' ''sm_prev0run1.xml'' @ ''</sitemapindex>'')
      \<and> file_content st ''robots.txt'' = Some (robots_txt_content ''example.org''))\<close>
proof -
  let ?w = "example_world\<lparr>tree := Dir [''style.css''] [(''.git'', Dir [''x.html''] [])]\<rparr>"
  let ?names = "[''sm_prev0run1.xml'', ''sitemap.xml'', ''a'', ''b.html'', ''CNAME'']"
  have none: "get_all_html_files ?w = []"
    by code_simp
  have dom: "get_domain_from_cname ?w init_state = Inr (''example.org'', init_state)"
    by (simp add: get_domain_from_cname_def example_world_def strip_def isspace_def)
  have names: "listdir ?w = Inr ?names"
    and ok: "open_w_error ?w ''sitemap.xml'' = None" "open_w_error ?w ''robots.txt'' = None"
    by (simp_all add: example_world_def)
  note r = no_pages_run [OF none dom names ok, unfolded example_existing_set]
  from r obtain st entries
    where run: "main ?w = Inr st" "created_fragments st = []"
      "map fst (written st) = [''sitemap.xml'', ''robots.txt'']"
      "file_content st ''robots.txt'' = Some (robots_txt_content ''example.org'')"
      and entries: "set entries = {''sm_prev0run1.xml''}" "distinct entries"
      and idx: \<open>file_content st ''sitemap.xml'' =
            Some (xml_header @ ''<sitemapindex xmlns="http://www.sitemaps.org/schemas/sitemap/0.9">\<newline>''
                  @ concat (map (index_entry ''example.org'') entries) @ ''</sitemapindex>'')\<close>
    by (elim conjE exE) (rule that)
  from entries have e: "entries = [''sm_prev0run1.xml'']"
    by (rule singleton_entries)
  have idx': \<open>file_content st ''sitemap.xml'' =
          Some (xml_header @ ''<sitemapindex xmlns="http://www.sitemaps.org/schemas/sitemap/0.9">\<newline>''
                @ index_entry ''example.org'' ''sm_prev0run1.xml'' @ ''</sitemapindex>'')\<close>
    using idx unfolding e by simp
  from none run idx' show ?thesis
    by (intro conjI exI [of _ st])
qed

subsection \<open>The missing marker file, and the other errors\<close>

text \<open>
  C5. If opening \<^verbatim>\<open>CNAME\<close> raises \<^verbatim>\<open>FileNotFoundError\<close>, the resolver prints the warning
  and returns \<^verbatim>\<open>example.com\<close>; the run then goes on, and if the directory can be listed
  and the files can be written it ends without an exception, the warning being its first
  line of output and \<^verbatim>\<open>example.com\<close> the domain in every file it writes. No other
  exception is caught: any other exception on reading \<^verbatim>\<open>CNAME\<close>, an exception of
  \<^verbatim>\<open>os.listdir\<close>, and an exception on opening \<^verbatim>\<open>sitemap.xml\<close> or \<^verbatim>\<open>robots.txt\<close> for
  writing each end the run with an exception; a run that ends without one has met no
  exception on any file it has written. The same holds for the fragments: the first
  fragment that cannot be opened for writing ends the run with the exception of that
  opening, and a run that ends without an exception has created one fragment for each
  chunk, under the names drawn in turn from the random source.
\<close>

theorem missing_marker_recovered:
  "(cname w = Inl FileNotFoundError \<longrightarrow>
      get_domain_from_cname w st = Inr (''example.com'', print cname_warning st))
   \<and> (cname w = Inl FileNotFoundError \<and> listdir w = Inr names \<and> (\<forall>f. open_w_error w f = None) \<longrightarrow>
      (\<exists>st' new out.
          main w = Inr st'
        \<and> stdout st' = cname_warning # out
        \<and> length new = length (chunks_of MAX_URLS (get_all_html_files w))
        \<and> written st' =
             zip new (map (\<lambda>chunk. sitemap_chunk_content chunk ''example.com'' (today w))
                       (chunks_of MAX_URLS (get_all_html_files w)))
             @ [(''sitemap.xml'',
                 main_index_content (filter (match_anchored pattern) names @ new) ''example.com''),
                (''robots.txt'', robots_txt_content ''example.com'')]))
   \<and> (cname w = Inl e \<and> e \<noteq> FileNotFoundError \<longrightarrow>
        get_domain_from_cname w st = Inl e \<and> main w = Inl e)
   \<and> (listdir w = Inl e \<longrightarrow> (\<exists>e'. main w = Inl e'))
   \<and> (open_w_error w ''sitemap.xml'' = Some e \<or> open_w_error w ''robots.txt'' = Some e \<longrightarrow>
        (\<exists>e'. main w = Inl e'))
   \<and> (main w = Inr final \<longrightarrow>
        list_all (\<lambda>f. open_w_error w f = None) (map fst (written final)))
   \<and> (get_domain_from_cname w init_state = Inr (domain, st1) \<and> listdir w = Inr names
        \<and> j < length (chunks_of MAX_URLS (get_all_html_files w))
        \<and> (\<forall>i<j. open_w_error w (fragment_name w i) = None)
        \<and> open_w_error w (fragment_name w j) = Some e \<longrightarrow>
        main w = Inl e)
   \<and> (main w = Inr final \<longrightarrow>
        created_fragments final =
          map (fragment_name w) [0 ..< length (chunks_of MAX_URLS (get_all_html_files w))])"
proof (intro conjI impI)
  assume "cname w = Inl FileNotFoundError"
  then show "get_domain_from_cname w st = Inr (''example.com'', print cname_warning st)"
    by (simp add: get_domain_from_cname_def)
next
  assume "cname w = Inl FileNotFoundError \<and> listdir w = Inr names \<and> (\<forall>f. open_w_error w f = None)"
  then show "\<exists>st' new out.
          main w = Inr st'
        \<and> stdout st' = cname_warning # out
        \<and> length new = length (chunks_of MAX_URLS (get_all_html_files w))
        \<and> written st' =
             zip new (map (\<lambda>chunk. sitemap_chunk_content chunk ''example.com'' (today w))
                       (chunks_of MAX_URLS (get_all_html_files w)))
             @ [(''sitemap.xml'',
                 main_index_content (filter (match_anchored pattern) names @ new) ''example.com''),
                (''robots.txt'', robots_txt_content ''example.com'')]"
    using main_missing_cname [of w names] by blast
next
  assume "cname w = Inl e \<and> e \<noteq> FileNotFoundError"
  then show "get_domain_from_cname w st = Inl e" "main w = Inl e"
    using main_fails_cname [of w e] by blast+
next
  assume "listdir w = Inl e"
  then show "\<exists>e'. main w = Inl e'"
    by (rule main_fails_listdir)
next
  assume "open_w_error w ''sitemap.xml'' = Some e \<or> open_w_error w ''robots.txt'' = Some e"
  then show "\<exists>e'. main w = Inl e'"
    by (rule main_fails_write)
next
  assume "main w = Inr final"
  then show "list_all (\<lambda>f. open_w_error w f = None) (map fst (written final))"
    by (rule main_written_ok)
next
  assume "get_domain_from_cname w init_state = Inr (domain, st1) \<and> listdir w = Inr names
        \<and> j < length (chunks_of MAX_URLS (get_all_html_files w))
        \<and> (\<forall>i<j. open_w_error w (fragment_name w i) = None)
        \<and> open_w_error w (fragment_name w j) = Some e"
  then show "main w = Inl e"
    using main_fails_fragment [of w domain st1 names j e] by blast
next
  assume "main w = Inr final"
  then show "created_fragments final =
      map (fragment_name w) [0 ..< length (chunks_of MAX_URLS (get_all_html_files w))]"
    by (rule main_fragment_names)
qed

theorem missing_marker_recovered_witness:
  "get_domain_from_cname (example_world\<lparr>cname := Inl FileNotFoundError\<rparr>) init_state
     = Inr (''example.com'', print cname_warning init_state)
   \<and> (\<exists>st' new out.
        main (example_world\<lparr>cname := Inl FileNotFoundError\<rparr>) = Inr st'
      \<and> stdout st' = cname_warning # out
      \<and> length new = 1
      \<and> written st' =
           zip new [sitemap_chunk_content [''b.html'', ''a/''] ''example.com'' ''2024-01-01'']
           @ [(''sitemap.xml'', main_index_content ([''sm_prev0run1.xml''] @ new) ''example.com''),
              (''robots.txt'', robots_txt_content ''example.com'')]
      \<and> list_all (\<lambda>f. open_w_error (example_world\<lparr>cname := Inl FileNotFoundError\<rparr>) f = None)
           (map fst (written st'))
      \<and> created_fragments st' = [''sm_dkry5cjqx4bi.xml''])
   \<and> get_domain_from_cname (example_world\<lparr>cname := Inl PermissionError\<rparr>) init_state
       = Inl PermissionError
   \<and> main (example_world\<lparr>cname := Inl PermissionError\<rparr>) = Inl PermissionError
   \<and> (\<exists>e'. main (example_world\<lparr>listdir := Inl PermissionError\<rparr>) = Inl e')
   \<and> (\<exists>e'. main (example_world\<lparr>open_w_error :=
                  \<lambda>f. if f = ''robots.txt'' then Some OSError else None\<rparr>) = Inl e')
   \<and> fragment_name example_world 0 = ''sm_dkry5cjqx4bi.xml''
   \<and> main (example_world\<lparr>open_w_error :=
               \<lambda>f. if f = ''sm_dkry5cjqx4bi.xml'' then Some PermissionError else None\<rparr>)
       = Inl PermissionError"
proof -
  let ?blocked = "example_world\<lparr>open_w_error :=
      \<lambda>f. if f = ''sm_dkry5cjqx4bi.xml'' then Some PermissionError else None\<rparr>"
  let ?absent = "example_world\<lparr>cname := Inl FileNotFoundError\<rparr>"
  let ?denied = "example_world\<lparr>cname := Inl PermissionError\<rparr>"
  let ?nolist = "example_world\<lparr>listdir := Inl PermissionError\<rparr>"
  let ?full = "example_world\<lparr>open_w_error := \<lambda>f. if f = ''robots.txt'' then Some OSError else None\<rparr>"
  let ?names = "[''sm_prev0run1.xml'', ''sitemap.xml'', ''a'', ''b.html'', ''CNAME'']"
  have absent: "cname ?absent = Inl FileNotFoundError" "listdir ?absent = Inr ?names"
    "\<forall>f. open_w_error ?absent f = None" "today ?absent = ''2024-01-01''"
    by (simp_all add: example_world_def)
  have "get_all_html_files ?absent = get_all_html_files example_world"
    by (simp add: get_all_html_files_def)
  then have chunks: "chunks_of MAX_URLS (get_all_html_files ?absent) = [[''b.html'', ''a/'']]"
    by (simp only: example_urls example_chunks)
  have first: "get_domain_from_cname ?absent init_state
      = Inr (''example.com'', print cname_warning init_state)"
    using missing_marker_recovered [of ?absent init_state] absent(1) by blast
  from missing_marker_recovered [of ?absent init_state ?names] absent(1-3)
  obtain st' new out where run: "main ?absent = Inr st'"
    and out: "stdout st' = cname_warning # out"
    and len: "length new = length (chunks_of MAX_URLS (get_all_html_files ?absent))"
    and wr: "written st' =
           zip new (map (\<lambda>chunk. sitemap_chunk_content chunk ''example.com'' (today ?absent))
                     (chunks_of MAX_URLS (get_all_html_files ?absent)))
           @ [(''sitemap.xml'',
               main_index_content (filter (match_anchored pattern) ?names @ new) ''example.com''),
              (''robots.txt'', robots_txt_content ''example.com'')]"
    by blast
  from len have len': "length new = 1"
    unfolding chunks by simp
  from wr have wr': "written st' =
           zip new [sitemap_chunk_content [''b.html'', ''a/''] ''example.com'' ''2024-01-01'']
           @ [(''sitemap.xml'', main_index_content ([''sm_prev0run1.xml''] @ new) ''example.com''),
              (''robots.txt'', robots_txt_content ''example.com'')]"
    unfolding chunks example_existing absent(4) by simp
  have ok: "list_all (\<lambda>f. open_w_error ?absent f = None) (map fst (written st'))"
    using missing_marker_recovered [where w = ?absent and final = st'] run by blast
  have "fragment_name ?absent 0 = ''sm_dkry5cjqx4bi.xml''"
    by code_simp
  with missing_marker_recovered [where w = ?absent and final = st'] run
  have created: "created_fragments st' = [''sm_dkry5cjqx4bi.xml'']"
    unfolding chunks by simp
  have second: "\<exists>st' new out.
        main ?absent = Inr st'
      \<and> stdout st' = cname_warning # out
      \<and> length new = 1
      \<and> written st' =
           zip new [sitemap_chunk_content [''b.html'', ''a/''] ''example.com'' ''2024-01-01'']
           @ [(''sitemap.xml'', main_index_content ([''sm_prev0run1.xml''] @ new) ''example.com''),
              (''robots.txt'', robots_txt_content ''example.com'')]
      \<and> list_all (\<lambda>f. open_w_error ?absent f = None) (map fst (written st'))
      \<and> created_fragments st' = [''sm_dkry5cjqx4bi.xml'']"
    using run out len' wr' ok created by (intro exI [of _ st'] exI [of _ new] exI [of _ out] conjI)
  have "cname ?denied = Inl PermissionError"
    by (simp add: example_world_def)
  with missing_marker_recovered [where w = ?denied and e = PermissionError and st = init_state]
  have third: "get_domain_from_cname ?denied init_state = Inl PermissionError"
    "main ?denied = Inl PermissionError"
    by simp_all
  have "listdir ?nolist = Inl PermissionError"
    by simp
  with missing_marker_recovered [where w = ?nolist and e = PermissionError]
  have fourth: "\<exists>e'. main ?nolist = Inl e'"
    by blast
  have "open_w_error ?full ''robots.txt'' = Some OSError"
    by simp
  with missing_marker_recovered [where w = ?full and e = OSError]
  have fifth: "\<exists>e'. main ?full = Inl e'"
    by blast
  have name: "fragment_name example_world 0 = ''sm_dkry5cjqx4bi.xml''"
    by code_simp
  have "fragment_name ?blocked 0 = ''sm_dkry5cjqx4bi.xml''"
    by code_simp
  then have blocked: "open_w_error ?blocked (fragment_name ?blocked 0) = Some PermissionError"
    by simp
  have dom: "get_domain_from_cname ?blocked init_state = Inr (''example.org'', init_state)"
    by (simp add: get_domain_from_cname_def example_world_def strip_def isspace_def)
  have names: "listdir ?blocked = Inr ?names"
    by (simp add: example_world_def)
  have "get_all_html_files ?blocked = get_all_html_files example_world"
    by (simp add: get_all_html_files_def)
  then have "chunks_of MAX_URLS (get_all_html_files ?blocked) = [[''b.html'', ''a/'']]"
    by (simp only: example_urls example_chunks)
  then have one: "0 < length (chunks_of MAX_URLS (get_all_html_files ?blocked))"
    by simp
  from missing_marker_recovered [where w = ?blocked and domain = "''example.org''"
      and ?st1.0 = init_state and names = ?names and j = 0 and e = PermissionError]
    dom names one blocked
  have sixth: "main ?blocked = Inl PermissionError"
    by blast
  from first second third fourth fifth name sixth show ?thesis
    by (intro conjI)
qed

end
